theory Spec2Isabelle
  imports Complex_Main
begin

section \<open>JavaScript values\<close>

text \<open>
  The normalizer works on a parsed JSON document. A JSON number is a double, a string is
  a list of characters, an array a list of values, and an object is an association list
  (the first binding of a key is the property; the keys of the object are the distinct
  first components). \<open>Undefined\<close> is the value of a missing property.

  Strings are lists of 8-bit characters, and case conversion is the ASCII one: on ASCII
  text this is what \<^verbatim>\<open>toLowerCase\<close>, \<^verbatim>\<open>toUpperCase\<close> and the \<^verbatim>\<open>/i\<close> flag do.
\<close>

datatype number = Finite rat | PosInf | NegInf

datatype jv =
    Undefined
  | Null
  | Bool bool
  | Num number
  | Str string
  | Arr "jv list"
  | Obj "(string \<times> jv) list"

datatype error = TypeError

text \<open>
  The built-ins whose results depend on the engine or on the process are parameters:
  \<^item> the decimal rendering of a number;
  \<^item> \<^verbatim>\<open>Date.parse\<close> (\<open>None\<close> is \<^verbatim>\<open>NaN\<close>, an invalid date);
  \<^item> \<^verbatim>\<open>getHours\<close> and \<^verbatim>\<open>getMinutes\<close> in the zone of the process;
  \<^item> the offset of New York from UTC at an instant, in milliseconds, as
    \<^verbatim>\<open>toLocaleString("en-US", {timeZone: "America/New_York"})\<close> applies it;
  \<^item> the date the process reads from a wall-clock time written without a zone, as
    \<^verbatim>\<open>new Date(string)\<close> does in the zone of the process (the wall-clock time is given
    as the milliseconds from 1970-01-01 00:00 of the calendar; \<open>None\<close> where the engine
    does not read the string);
  \<^item> the order \<^verbatim>\<open>Array.prototype.sort\<close> gives when the comparator is not a consistent
    order, which the language leaves to the engine: the positions of the input it puts
    first, second and so on, as a function of the time values being compared.
\<close>

record js_env =
  num_to_string :: "number \<Rightarrow> string"
  date_parse :: "string \<Rightarrow> int option"
  local_hours :: "int \<Rightarrow> nat"
  local_minutes :: "int \<Rightarrow> nat"
  ny_utc_offset :: "int \<Rightarrow> int"
  read_local :: "int \<Rightarrow> int option"
  engine_order :: "int option list \<Rightarrow> nat list"

definition bindE :: "error + 'a \<Rightarrow> ('a \<Rightarrow> error + 'b) \<Rightarrow> error + 'b" where
  "bindE m f = (case m of Inl e \<Rightarrow> Inl e | Inr v \<Rightarrow> f v)"

fun truthy :: "jv \<Rightarrow> bool" where
  "truthy Undefined = False"
| "truthy Null = False"
| "truthy (Bool b) = b"
| "truthy (Num (Finite q)) = (q \<noteq> 0)"
| "truthy (Num PosInf) = True"
| "truthy (Num NegInf) = True"
| "truthy (Str s) = (s \<noteq> [])"
| "truthy (Arr xs) = True"
| "truthy (Obj kvs) = True"

text \<open>\<^verbatim>\<open>a || b\<close>.\<close>

definition js_or :: "jv \<Rightarrow> jv \<Rightarrow> jv" where
  "js_or a b = (if truthy a then a else b)"

fun nullish :: "jv \<Rightarrow> bool" where
  "nullish Undefined = True"
| "nullish Null = True"
| "nullish v = False"

text \<open>\<^verbatim>\<open>typeof v === "object"\<close>, which holds of \<^verbatim>\<open>null\<close> too.\<close>

fun typeof_object :: "jv \<Rightarrow> bool" where
  "typeof_object Null = True"
| "typeof_object (Arr xs) = True"
| "typeof_object (Obj kvs) = True"
| "typeof_object v = False"

text \<open>
  \<^verbatim>\<open>v.k\<close> for a value that is neither \<^verbatim>\<open>null\<close> nor \<^verbatim>\<open>undefined\<close> and one of the field
  names the program reads (\<^verbatim>\<open>routes\<close>, \<^verbatim>\<open>rides\<close>, \<^verbatim>\<open>routeId\<close>, \<^verbatim>\<open>routeServiceId\<close>,
  \<^verbatim>\<open>name\<close>, \<^verbatim>\<open>shortName\<close>, \<^verbatim>\<open>colorLabel\<close>, \<^verbatim>\<open>mode\<close>, \<^verbatim>\<open>type\<close>, \<^verbatim>\<open>stopStatus\<close>,
  \<^verbatim>\<open>stopId\<close> and the five time fields): none of them is a member of a prototype of a
  JSON value, so only an object's own property can answer.
\<close>

fun fld :: "jv \<Rightarrow> string \<Rightarrow> jv" where
  "fld (Obj kvs) k = (case map_of kvs k of Some v \<Rightarrow> v | None \<Rightarrow> Undefined)"
| "fld v k = Undefined"

text \<open>\<^verbatim>\<open>v.k\<close> where \<open>v\<close> may be \<^verbatim>\<open>null\<close> or \<^verbatim>\<open>undefined\<close>: reading a property of those throws.\<close>

definition get :: "jv \<Rightarrow> string \<Rightarrow> error + jv" where
  "get v k = (if nullish v then Inl TypeError else Inr (fld v k))"

text \<open>\<^verbatim>\<open>for (const x of v)\<close>: arrays and strings are iterable, nothing else of JSON is.\<close>

fun iterate :: "jv \<Rightarrow> error + jv list" where
  "iterate (Arr xs) = Inr xs"
| "iterate (Str s) = Inr (map (\<lambda>c. Str [c]) s)"
| "iterate v = Inl TypeError"

subsection \<open>Strings\<close>

definition lower_char :: "char \<Rightarrow> char" where
  "lower_char c =
     (case map_of (zip ''ABCDEFGHIJKLMNOPQRSTUVWXYZ'' ''abcdefghijklmnopqrstuvwxyz'') c of
        Some d \<Rightarrow> d
      | None \<Rightarrow> c)"

definition upper_char :: "char \<Rightarrow> char" where
  "upper_char c =
     (case map_of (zip ''abcdefghijklmnopqrstuvwxyz'' ''ABCDEFGHIJKLMNOPQRSTUVWXYZ'') c of
        Some d \<Rightarrow> d
      | None \<Rightarrow> c)"

definition toLowerCase :: "string \<Rightarrow> string" where
  "toLowerCase s = map lower_char s"

fun starts_with :: "string \<Rightarrow> string \<Rightarrow> bool" where
  "starts_with s [] = True"
| "starts_with [] (p # ps) = False"
| "starts_with (c # cs) (p # ps) = (c = p \<and> starts_with cs ps)"

text \<open>\<^verbatim>\<open>s.includes(p)\<close>.\<close>

fun str_includes :: "string \<Rightarrow> string \<Rightarrow> bool" where
  "str_includes [] p = (p = [])"
| "str_includes (c # cs) p = (starts_with (c # cs) p \<or> str_includes cs p)"

text \<open>
  \<^verbatim>\<open>(v).toLowerCase()\<close> where \<open>v\<close> is the value of \<^verbatim>\<open>x || ""\<close>: a string has the method,
  and a truthy value of another type (a number, \<^verbatim>\<open>true\<close>, an array, an object) has not,
  so the call throws.
\<close>

fun lower_of :: "jv \<Rightarrow> error + string" where
  "lower_of (Str s) = Inr (toLowerCase s)"
| "lower_of v = Inl TypeError"

text \<open>
  \<^verbatim>\<open>ToString\<close>, as property keys, \<^verbatim>\<open>RegExp.prototype.test\<close>, \<^verbatim>\<open>.toString()\<close> and the
  \<^verbatim>\<open>Date\<close> constructor apply it to a JSON value. An array joins its elements with
  commas, \<^verbatim>\<open>null\<close> elements as the empty string. An object is \<^verbatim>\<open>[object Object]\<close>,
  unless it has a property \<^verbatim>\<open>toString\<close> of its own: that property is a JSON value,
  not a function, and the conversion throws.
\<close>

fun to_str :: "js_env \<Rightarrow> jv \<Rightarrow> error + string"
  and join_elems :: "js_env \<Rightarrow> jv list \<Rightarrow> error + string" where
  "to_str env Undefined = Inr ''undefined''"
| "to_str env Null = Inr ''null''"
| "to_str env (Bool b) = Inr (if b then ''true'' else ''false'')"
| "to_str env (Num n) = Inr (num_to_string env n)"
| "to_str env (Str s) = Inr s"
| "to_str env (Arr xs) = join_elems env xs"
| "to_str env (Obj kvs) =
     (if ''toString'' \<in> set (map fst kvs) then Inl TypeError else Inr ''[object Object]'')"
| "join_elems env [] = Inr []"
| "join_elems env (x # xs) =
     bindE (if nullish x then Inr [] else to_str env x) (\<lambda>s.
     if xs = [] then Inr s
     else bindE (join_elems env xs) (\<lambda>r. Inr (s @ '','' @ r)))"

text \<open>\<^verbatim>\<open>/p/i.test(v)\<close> for a lower-case pattern \<open>p\<close> of letters.\<close>

definition regex_test_ci :: "js_env \<Rightarrow> string \<Rightarrow> jv \<Rightarrow> error + bool" where
  "regex_test_ci env p v = bindE (to_str env v) (\<lambda>s. Inr (str_includes (toLowerCase s) p))"

subsection \<open>Dates\<close>

text \<open>
  \<^verbatim>\<open>TimeClip\<close>: a time value is an integer number of milliseconds of magnitude at most
  8.64e15; anything else is \<^verbatim>\<open>NaN\<close>.
\<close>

fun time_clip :: "number \<Rightarrow> int option" where
  "time_clip (Finite q) =
     (if \<bar>q\<bar> \<le> 8640000000000000 then Some (if 0 \<le> q then \<lfloor>q\<rfloor> else \<lceil>q\<rceil>) else None)"
| "time_clip PosInf = None"
| "time_clip NegInf = None"

text \<open>\<^verbatim>\<open>new Date(v).getTime()\<close>; \<open>None\<close> is \<^verbatim>\<open>NaN\<close>.\<close>

fun new_date :: "js_env \<Rightarrow> jv \<Rightarrow> error + int option" where
  "new_date env Undefined = Inr None"
| "new_date env Null = Inr (Some 0)"
| "new_date env (Bool b) = Inr (Some (if b then 1 else 0))"
| "new_date env (Num n) = Inr (time_clip n)"
| "new_date env (Str s) = Inr (date_parse env s)"
| "new_date env (Arr xs) = bindE (to_str env (Arr xs)) (\<lambda>s. Inr (date_parse env s))"
| "new_date env (Obj kvs) = bindE (to_str env (Obj kvs)) (\<lambda>s. Inr (date_parse env s))"

definition show_digit :: "nat \<Rightarrow> char" where
  "show_digit n = ''0123456789'' ! n"

fun show_nat :: "nat \<Rightarrow> string" where
  "show_nat n = (if n < 10 then [show_digit n] else show_nat (n div 10) @ [show_digit (n mod 10)])"

declare show_nat.simps [simp del]

text \<open>
  \<^verbatim>\<open>minutesFromNow\<close>: \<^verbatim>\<open>Math.max(0, Math.round(diffMs / 60000))\<close>, where \<^verbatim>\<open>Math.round\<close>
  rounds a half up; in exact arithmetic that is \<open>(diffMs + 30000) div 60000\<close>, and the
  doubles give the same integer whenever \<open>diffMs\<close> is below \<open>2^53\<close> in magnitude. \<open>now\<close>
  is the reading of \<^verbatim>\<open>Date.now()\<close>. An invalid date gives \<^verbatim>\<open>NaN\<close>.
\<close>

definition minutesFromNow :: "js_env \<Rightarrow> int \<Rightarrow> jv \<Rightarrow> error + int option" where
  "minutesFromNow env now dateISOString =
     bindE (new_date env dateISOString) (\<lambda>target.
     Inr (case target of
            None \<Rightarrow> None
          | Some t \<Rightarrow> Some (max 0 ((t - now + 30000) div 60000))))"

text \<open>\<^verbatim>\<open>formatTime\<close>; every field of an invalid date is \<^verbatim>\<open>NaN\<close>.\<close>

definition formatTime :: "js_env \<Rightarrow> jv \<Rightarrow> error + string" where
  "formatTime env dateISOString =
     bindE (new_date env dateISOString) (\<lambda>d.
     Inr (case d of
            None \<Rightarrow> ''NaN:NaN am''
          | Some t \<Rightarrow>
              (let h = local_hours env t;
                   m = local_minutes env t;
                   suffix = (if 12 \<le> h then ''pm'' else ''am'');
                   h' = ((h + 11) mod 12) + 1;
                   mm = (if m < 10 then ''0'' @ show_nat m else show_nat m)
               in show_nat h' @ '':'' @ mm @ '' '' @ suffix)))"

section \<open>The route directory\<close>

text \<open>
  \<^verbatim>\<open>routeInfoById\<close> is a plain object used as a dictionary, so a lookup that finds no
  property of its own goes on to the prototype: \<^verbatim>\<open>Object.prototype\<close>, or the route
  record that an assignment to the key \<^verbatim>\<open>__proto__\<close> has put in its place. What a lookup
  returns is therefore a JSON value (a route record, or a field of the record that is
  the prototype), a function of \<^verbatim>\<open>Object.prototype\<close>, given by its name, or
  \<^verbatim>\<open>Object.prototype\<close> itself.
\<close>

datatype looked = Val jv | Builtin string | ObjectPrototype

fun ltruthy :: "looked \<Rightarrow> bool" where
  "ltruthy (Val v) = truthy v"
| "ltruthy (Builtin f) = True"
| "ltruthy ObjectPrototype = True"

text \<open>\<^verbatim>\<open>routeInfo.k\<close> for \<open>k\<close> one of \<^verbatim>\<open>name\<close>, \<^verbatim>\<open>shortName\<close>, \<^verbatim>\<open>colorLabel\<close>.\<close>

fun rfld :: "looked \<Rightarrow> string \<Rightarrow> jv" where
  "rfld (Val v) k = fld v k"
| "rfld (Builtin f) k = (if k = ''name'' then Str f else Undefined)"
| "rfld ObjectPrototype k = Undefined"

record route_dir =
  own_props :: "(string \<times> jv) list"
  proto_of :: "jv option"

definition empty_dir :: route_dir where
  "empty_dir = \<lparr>own_props = [], proto_of = None\<rparr>"

definition object_prototype_get :: "string \<Rightarrow> looked" where
  "object_prototype_get k =
     (if k = ''constructor'' then Builtin ''Object''
      else if k \<in> set [''__defineGetter__'', ''__defineSetter__'', ''hasOwnProperty'',
                        ''__lookupGetter__'', ''__lookupSetter__'', ''isPrototypeOf'',
                        ''propertyIsEnumerable'', ''toString'', ''valueOf'',
                        ''toLocaleString'']
      then Builtin k
      else Val Undefined)"

text \<open>\<^verbatim>\<open>routeInfoById[k]\<close>.\<close>

definition dir_get :: "route_dir \<Rightarrow> string \<Rightarrow> looked" where
  "dir_get dir k =
     (case map_of (own_props dir) k of
        Some v \<Rightarrow> Val v
      | None \<Rightarrow>
          (case proto_of dir of
             None \<Rightarrow> (if k = ''__proto__'' then ObjectPrototype else object_prototype_get k)
           | Some info \<Rightarrow>
               (case info of
                  Obj kvs \<Rightarrow>
                    (case map_of kvs k of
                       Some v \<Rightarrow> Val v
                     | None \<Rightarrow> (if k = ''__proto__'' then Val info else object_prototype_get k))
                | _ \<Rightarrow> (if k = ''__proto__'' then Val info else object_prototype_get k))))"

text \<open>
  \<^verbatim>\<open>routeInfoById[k] = info\<close>: the key \<^verbatim>\<open>__proto__\<close> reaches the setter of
  \<^verbatim>\<open>Object.prototype\<close>, which makes the record the prototype of the dictionary.
\<close>

definition dir_set :: "route_dir \<Rightarrow> string \<Rightarrow> jv \<Rightarrow> route_dir" where
  "dir_set dir k info =
     (if k = ''__proto__'' then dir\<lparr>proto_of := Some info\<rparr>
      else dir\<lparr>own_props := (k, info) # own_props dir\<rparr>)"

text \<open>\<^verbatim>\<open>/p/i.test(name) || /p/i.test(shortName)\<close>.\<close>

definition test_either :: "js_env \<Rightarrow> string \<Rightarrow> jv \<Rightarrow> jv \<Rightarrow> error + bool" where
  "test_either env p name shortName =
     bindE (regex_test_ci env p name) (\<lambda>hit.
     if hit then Inr True else regex_test_ci env p shortName)"

definition infer_color :: "js_env \<Rightarrow> jv \<Rightarrow> jv \<Rightarrow> error + string" where
  "infer_color env name shortName =
     bindE (test_either env ''green'' name shortName) (\<lambda>g.
     if g then Inr ''Green'' else
     bindE (test_either env ''red'' name shortName) (\<lambda>r.
     if r then Inr ''Red'' else
     bindE (test_either env ''blue'' name shortName) (\<lambda>b.
     Inr (if b then ''Blue'' else []))))"

text \<open>The body of the loop over \<^verbatim>\<open>routes\<close>.\<close>

definition add_route :: "js_env \<Rightarrow> route_dir \<Rightarrow> jv \<Rightarrow> error + route_dir" where
  "add_route env dir r =
     bindE (get r ''routeId'') (\<lambda>id.
     if \<not> truthy id then Inr dir else
     (let name = js_or (js_or (fld r ''name'') (fld r ''shortName'')) (Str ''Shuttle'');
          shortName = js_or (fld r ''shortName'') name
      in bindE (infer_color env name shortName) (\<lambda>colorLabel.
         bindE (to_str env id) (\<lambda>key.
         Inr (dir_set dir key
                (Obj [(''id'', id), (''name'', name), (''shortName'', shortName),
                      (''colorLabel'', Str colorLabel)]))))))"

fun build_routes :: "js_env \<Rightarrow> route_dir \<Rightarrow> jv list \<Rightarrow> error + route_dir" where
  "build_routes env dir [] = Inr dir"
| "build_routes env dir (r # rs) = bindE (add_route env dir r) (\<lambda>dir'. build_routes env dir' rs)"

section \<open>Rides\<close>

definition isWalkingRide :: "js_env \<Rightarrow> jv \<Rightarrow> error + bool" where
  "isWalkingRide env ride =
     bindE (get ride ''mode'') (\<lambda>m.
     bindE (to_str env (js_or (js_or m (fld ride ''type'')) (Str []))) (\<lambda>mode.
     Inr (str_includes (toLowerCase mode) ''walk'')))"

text \<open>
  \<^verbatim>\<open>routeInfoById[ride.routeId] || routeInfoById[ride.routeServiceId] || {...}\<close>; a
  missing identifier is the key \<^verbatim>\<open>undefined\<close>.
\<close>

definition resolve_route :: "js_env \<Rightarrow> route_dir \<Rightarrow> jv \<Rightarrow> error + looked" where
  "resolve_route env dir ride =
     bindE (to_str env (fld ride ''routeId'')) (\<lambda>k1.
     if ltruthy (dir_get dir k1) then Inr (dir_get dir k1) else
     bindE (to_str env (fld ride ''routeServiceId'')) (\<lambda>k2.
     if ltruthy (dir_get dir k2) then Inr (dir_get dir k2) else
     Inr (Val (Obj [(''id'', js_or (fld ride ''routeId'') (fld ride ''routeServiceId'')),
                    (''name'', Str ''Shuttle''), (''shortName'', Str ''Shuttle''),
                    (''colorLabel'', Str [])]))))"

text \<open>
  The repository holds two revisions of the server: \<^verbatim>\<open>src/server.js\<close> (v14) and
  \<^verbatim>\<open>src/unnamed/part_000\<close> (v15). Their normalizers differ in the exclusion pattern, in
  the bucket key and in the display colour; everything else is shared.
\<close>

datatype revision = V14 | V15

definition excluded_route :: "revision \<Rightarrow> looked \<Rightarrow> error + bool" where
  "excluded_route ver routeInfo =
     bindE (lower_of (js_or (rfld routeInfo ''name'') (Str []))) (\<lambda>rName.
     bindE (lower_of (js_or (rfld routeInfo ''shortName'') (Str []))) (\<lambda>rShort.
     Inr (case ver of
            V15 \<Rightarrow> str_includes rName ''manhattanville'' \<or> str_includes rShort ''manhattanville''
          | V14 \<Rightarrow>
              str_includes rName ''manhattanville'' \<or> str_includes rName ''m'ville'' \<or>
              str_includes rName ''mville'' \<or> str_includes rShort ''manhattanville'' \<or>
              str_includes rShort ''m'ville'' \<or> str_includes rShort ''mville'')))"

subsection \<open>Stop-status resolution\<close>

definition NINETY_SIX_STOP_ID :: string where
  "NINETY_SIX_STOP_ID = ''A5C97705-8217-4D82-A778-01DAA12322A6''"

definition ninetySixIdLower :: string where
  "ninetySixIdLower = toLowerCase NINETY_SIX_STOP_ID"

text \<open>
  The envelope: \<^verbatim>\<open>Object.keys(wrapper)\<close> has one key and its value has type
  \<^verbatim>\<open>object\<close>. An array of one element has the single key \<^verbatim>\<open>0\<close>; the single key of a
  one-character string holds a string, and a number or a boolean has no key.
\<close>

fun unwrap :: "jv \<Rightarrow> jv" where
  "unwrap (Obj kvs) =
     (case remdups (map fst kvs) of
        [k] \<Rightarrow> (if typeof_object (fld (Obj kvs) k) then fld (Obj kvs) k else Obj kvs)
      | _ \<Rightarrow> Obj kvs)"
| "unwrap (Arr [v]) = (if typeof_object v then v else Arr [v])"
| "unwrap w = w"

text \<open>\<^verbatim>\<open>(inner.stopId || "").toLowerCase()\<close>; the envelope of \<^verbatim>\<open>null\<close> gives \<^verbatim>\<open>null\<close>.\<close>

definition stop_sid :: "jv \<Rightarrow> error + string" where
  "stop_sid inner = bindE (get inner ''stopId'') (\<lambda>sid. lower_of (js_or sid (Str [])))"

definition scan_step :: "string \<Rightarrow> jv \<times> jv \<Rightarrow> jv \<Rightarrow> error + jv \<times> jv" where
  "scan_step originIdLower acc wrapper =
     (if \<not> truthy wrapper then Inr acc
      else bindE (stop_sid (unwrap wrapper)) (\<lambda>sid.
           Inr (if sid = originIdLower then unwrap wrapper else fst acc,
                if sid = ninetySixIdLower then unwrap wrapper else snd acc)))"

text \<open>\<^verbatim>\<open>ride.stopStatus || []\<close>, as the loop iterates it.\<close>

definition ride_statuses :: "jv \<Rightarrow> error + jv list" where
  "ride_statuses ride = iterate (js_or (fld ride ''stopStatus'') (Arr []))"

text \<open>The loop over \<^verbatim>\<open>statuses\<close>; the pair is \<^verbatim>\<open>(originNode, ninetySixNode)\<close>.\<close>

fun scan_statuses :: "string \<Rightarrow> jv \<times> jv \<Rightarrow> jv list \<Rightarrow> error + jv \<times> jv" where
  "scan_statuses originIdLower acc [] = Inr acc"
| "scan_statuses originIdLower acc (w # ws) =
     bindE (scan_step originIdLower acc w) (\<lambda>acc'. scan_statuses originIdLower acc' ws)"

subsection \<open>Times, directness, delay\<close>

definition scheduledTime_of :: "jv \<Rightarrow> jv" where
  "scheduledTime_of originNode =
     js_or (js_or (fld originNode ''scheduledDepartureTime'')
                  (fld originNode ''scheduledArrivalTime''))
           (fld originNode ''scheduledAt'')"

definition liveTime_of :: "jv \<Rightarrow> jv" where
  "liveTime_of originNode =
     js_or (js_or (fld originNode ''expectedArrivalTime'')
                  (fld originNode ''expectedDepartureTime''))
           (scheduledTime_of originNode)"

definition ninetySixTime_of :: "jv \<Rightarrow> jv" where
  "ninetySixTime_of ninetySixNode =
     js_or (js_or (fld ninetySixNode ''expectedArrivalTime'')
                  (fld ninetySixNode ''scheduledArrivalTime''))
           (fld ninetySixNode ''scheduledAt'')"

text \<open>\<^verbatim>\<open>a < b\<close> on time values: a comparison with \<^verbatim>\<open>NaN\<close> is false.\<close>

fun ms_less :: "int option \<Rightarrow> int option \<Rightarrow> bool" where
  "ms_less (Some a) (Some b) = (a < b)"
| "ms_less a b = False"

definition reaches96_of :: "js_env \<Rightarrow> jv \<Rightarrow> jv \<Rightarrow> error + bool" where
  "reaches96_of env liveTime ninetySixNode =
     (if truthy ninetySixNode then
        (if truthy (ninetySixTime_of ninetySixNode) then
           bindE (new_date env liveTime) (\<lambda>originMs.
           bindE (new_date env (ninetySixTime_of ninetySixNode)) (\<lambda>ninetySixMs.
           Inr (ms_less originMs ninetySixMs)))
         else Inr False)
      else Inr False)"

text \<open>
  \<^verbatim>\<open>delayMin > 1\<close> for \<^verbatim>\<open>delayMin = (live - scheduled) / 60000\<close>: time values are integers,
  so this is \<open>60000 < live - scheduled\<close>; with an invalid date the quotient is \<^verbatim>\<open>NaN\<close>
  and the comparison false.
\<close>

fun delay_over_1min :: "int option \<Rightarrow> int option \<Rightarrow> bool" where
  "delay_over_1min (Some live) (Some sched) = (60000 < live - sched)"
| "delay_over_1min a b = False"

definition delayed_of :: "js_env \<Rightarrow> int option \<Rightarrow> jv \<Rightarrow> error + bool" where
  "delayed_of env liveDate scheduledTime =
     (if truthy scheduledTime then
        bindE (new_date env scheduledTime) (\<lambda>sched. Inr (delay_over_1min liveDate sched))
      else Inr False)"

subsection \<open>Bucket key and display colour\<close>

definition color_key :: "js_env \<Rightarrow> revision \<Rightarrow> looked \<Rightarrow> error + string" where
  "color_key env ver routeInfo =
     (case ver of
        V15 \<Rightarrow>
          (if truthy (rfld routeInfo ''colorLabel'') then lower_of (rfld routeInfo ''colorLabel'')
           else Inr ''blue'')
      | V14 \<Rightarrow>
          bindE
            (if truthy (rfld routeInfo ''colorLabel'') then lower_of (rfld routeInfo ''colorLabel'')
             else
               bindE (test_either env ''green'' (rfld routeInfo ''name'') (rfld routeInfo ''shortName'')) (\<lambda>g.
               if g then Inr ''green'' else
               bindE (test_either env ''red'' (rfld routeInfo ''name'') (rfld routeInfo ''shortName'')) (\<lambda>r.
               if r then Inr ''red'' else
               bindE (test_either env ''blue'' (rfld routeInfo ''name'') (rfld routeInfo ''shortName'')) (\<lambda>b.
               Inr ''blue''))))
            (\<lambda>colorKey.
               Inr (if colorKey \<in> set [''green'', ''red'', ''blue''] then colorKey else ''blue'')))"

text \<open>
  \<^verbatim>\<open>colorKey[0].toUpperCase() + colorKey.slice(1)\<close>: the first character of the empty
  string is \<^verbatim>\<open>undefined\<close>, which has no method.
\<close>

fun capitalize :: "string \<Rightarrow> error + string" where
  "capitalize [] = Inl TypeError"
| "capitalize (c # cs) = Inr (upper_char c # cs)"

definition display_color :: "revision \<Rightarrow> looked \<Rightarrow> string \<Rightarrow> error + jv" where
  "display_color ver routeInfo colorKey =
     (if truthy (rfld routeInfo ''colorLabel'') then Inr (rfld routeInfo ''colorLabel'')
      else (case ver of
              V15 \<Rightarrow> Inr (Str colorKey)
            | V14 \<Rightarrow> bindE (capitalize colorKey) (\<lambda>s. Inr (Str s))))"

subsection \<open>\<^verbatim>\<open>considerRide\<close>\<close>

record entry =
  routeName :: jv
  color :: jv
  time :: string
  rawISO :: jv
  inMinutes :: "int option"
  direct :: bool
  delayed :: bool

text \<open>
  \<^verbatim>\<open>considerRide\<close> up to its last statement: the bucket key and the entry it is about to
  push, or \<open>None\<close> where it returns early. \<open>now\<close> is what \<^verbatim>\<open>Date.now()\<close> answers in
  \<^verbatim>\<open>minutesFromNow\<close>.
\<close>

definition considerRide_entry ::
  "js_env \<Rightarrow> int \<Rightarrow> revision \<Rightarrow> string \<Rightarrow> jv \<Rightarrow> looked \<Rightarrow> error + (string \<times> entry) option" where
  "considerRide_entry env now ver originIdLower ride routeInfo =
     (if \<not> truthy ride \<or> \<not> ltruthy routeInfo then Inr None else
      bindE (excluded_route ver routeInfo) (\<lambda>excluded.
      if excluded then Inr None else
      bindE (ride_statuses ride) (\<lambda>statuses.
      bindE (scan_statuses originIdLower (Null, Null) statuses) (\<lambda>nodes.
      if \<not> truthy (fst nodes) then Inr None else
      if \<not> truthy (liveTime_of (fst nodes)) then Inr None else
      bindE (reaches96_of env (liveTime_of (fst nodes)) (snd nodes)) (\<lambda>reaches96.
      bindE (color_key env ver routeInfo) (\<lambda>colorKey.
      bindE (new_date env (liveTime_of (fst nodes))) (\<lambda>liveDate.
      bindE (display_color ver routeInfo colorKey) (\<lambda>col.
      bindE (formatTime env (liveTime_of (fst nodes))) (\<lambda>tm.
      bindE (minutesFromNow env now (liveTime_of (fst nodes))) (\<lambda>mins.
      bindE (delayed_of env liveDate (scheduledTime_of (fst nodes))) (\<lambda>late.
      Inr (Some (colorKey,
                 \<lparr>routeName = rfld routeInfo ''name'', color = col, time = tm,
                  rawISO = liveTime_of (fst nodes), inMinutes = mins,
                  direct = reaches96, delayed = late\<rparr>)))))))))))))"

text \<open>
  The state of a run: the three buckets, and how often \<^verbatim>\<open>Date.now()\<close> has been read.
  The clock is a function from the number of the reading to the time it gives.
\<close>

record run_state =
  bk_green :: "entry list"
  bk_red :: "entry list"
  bk_blue :: "entry list"
  reads :: nat

definition init_state :: run_state where
  "init_state = \<lparr>bk_green = [], bk_red = [], bk_blue = [], reads = 0\<rparr>"

text \<open>\<^verbatim>\<open>buckets[colorKey].push(entry)\<close>: any other key finds no array to push to.\<close>

definition bucket_push :: "string \<Rightarrow> entry \<Rightarrow> run_state \<Rightarrow> error + run_state" where
  "bucket_push colorKey e st =
     (if colorKey = ''green'' then Inr (st\<lparr>bk_green := bk_green st @ [e]\<rparr>)
      else if colorKey = ''red'' then Inr (st\<lparr>bk_red := bk_red st @ [e]\<rparr>)
      else if colorKey = ''blue'' then Inr (st\<lparr>bk_blue := bk_blue st @ [e]\<rparr>)
      else Inl TypeError)"

definition considerRide ::
  "js_env \<Rightarrow> (nat \<Rightarrow> int) \<Rightarrow> revision \<Rightarrow> string \<Rightarrow> run_state \<Rightarrow> jv \<Rightarrow> looked \<Rightarrow> error + run_state" where
  "considerRide env clock ver originIdLower st ride routeInfo =
     bindE (considerRide_entry env (clock (reads st)) ver originIdLower ride routeInfo) (\<lambda>r.
     case r of
       None \<Rightarrow> Inr st
     | Some (colorKey, e) \<Rightarrow> bucket_push colorKey e (st\<lparr>reads := Suc (reads st)\<rparr>))"

text \<open>The body of the loop over \<^verbatim>\<open>rides\<close>, and the loop.\<close>

definition ride_step ::
  "js_env \<Rightarrow> (nat \<Rightarrow> int) \<Rightarrow> revision \<Rightarrow> string \<Rightarrow> route_dir \<Rightarrow> run_state \<Rightarrow> jv \<Rightarrow> error + run_state" where
  "ride_step env clock ver originIdLower dir st ride =
     bindE (isWalkingRide env ride) (\<lambda>walking.
     if walking then Inr st else
     bindE (resolve_route env dir ride) (\<lambda>routeInfo.
     considerRide env clock ver originIdLower st ride routeInfo))"

fun rides_loop ::
  "js_env \<Rightarrow> (nat \<Rightarrow> int) \<Rightarrow> revision \<Rightarrow> string \<Rightarrow> route_dir \<Rightarrow> run_state \<Rightarrow> jv list \<Rightarrow> error + run_state" where
  "rides_loop env clock ver originIdLower dir st [] = Inr st"
| "rides_loop env clock ver originIdLower dir st (ride # rides) =
     bindE (ride_step env clock ver originIdLower dir st ride) (\<lambda>st'.
     rides_loop env clock ver originIdLower dir st' rides)"

section \<open>Sorting and the result\<close>

text \<open>
  The comparator \<^verbatim>\<open>new Date(a.rawISO) - new Date(b.rawISO)\<close>: a difference with an invalid
  date is \<^verbatim>\<open>NaN\<close>, which \<^verbatim>\<open>sort\<close> reads as \<open>0\<close>. Every \<^verbatim>\<open>rawISO\<close> in a bucket has
  been given to \<^verbatim>\<open>new Date\<close> before without a throw (lemma \<open>collect_buckets_ok\<close>), so
  the comparator does not throw.
\<close>

definition entry_ms :: "js_env \<Rightarrow> entry \<Rightarrow> int option" where
  "entry_ms env e = (case new_date env (rawISO e) of Inr d \<Rightarrow> d | Inl err \<Rightarrow> None)"

fun compare_ms :: "int option \<Rightarrow> int option \<Rightarrow> int" where
  "compare_ms (Some a) (Some b) = a - b"
| "compare_ms a b = 0"

text \<open>
  The comparator is a consistent order when no date is invalid, and when the valid dates
  are all the same (it is then \<open>0\<close> throughout); an invalid date among different valid
  ones compares equal to both and breaks transitivity.
\<close>

definition consistent_stamps :: "int option list \<Rightarrow> bool" where
  "consistent_stamps ks =
     (list_all (\<lambda>k. k \<noteq> None) ks \<or> length (remdups (filter (\<lambda>k. k \<noteq> None) ks)) \<le> 1)"

text \<open>
  \<^verbatim>\<open>Array.prototype.sort\<close> is stable: with a consistent comparator its result is that of
  the stable insertion sort, whatever algorithm the engine runs. With another comparator
  the order is the engine's, and depends on the elements only through the time values
  the comparator reads.
\<close>

fun insert_entry :: "js_env \<Rightarrow> entry \<Rightarrow> entry list \<Rightarrow> entry list" where
  "insert_entry env e [] = [e]"
| "insert_entry env e (x # xs) =
     (if compare_ms (entry_ms env e) (entry_ms env x) \<le> 0 then e # x # xs
      else x # insert_entry env e xs)"

definition insertion_sort :: "js_env \<Rightarrow> entry list \<Rightarrow> entry list" where
  "insertion_sort env xs = foldr (insert_entry env) xs []"

definition js_sort :: "js_env \<Rightarrow> entry list \<Rightarrow> entry list" where
  "js_sort env xs =
     (if consistent_stamps (map (entry_ms env) xs) then insertion_sort env xs
      else map (\<lambda>i. xs ! i)
             (filter (\<lambda>i. i < length xs) (engine_order env (map (entry_ms env) xs))))"

record result =
  stopName :: string
  green :: "entry list"
  red :: "entry list"
  blue :: "entry list"

text \<open>The normalizer up to the two loops: the buckets before they are sorted and cut.\<close>

definition collect_buckets ::
  "js_env \<Rightarrow> (nat \<Rightarrow> int) \<Rightarrow> revision \<Rightarrow> jv \<Rightarrow> string \<Rightarrow> error + run_state" where
  "collect_buckets env clock ver json originStopId =
     bindE (get json ''routes'') (\<lambda>rs.
     bindE (iterate (js_or rs (Arr []))) (\<lambda>routes.
     bindE (build_routes env empty_dir routes) (\<lambda>routeInfoById.
     bindE (iterate (js_or (fld json ''rides'') (Arr []))) (\<lambda>rides.
     rides_loop env clock ver (toLowerCase originStopId) routeInfoById init_state rides))))"

definition parseTripShotCommutePlanForOrigin ::
  "js_env \<Rightarrow> (nat \<Rightarrow> int) \<Rightarrow> revision \<Rightarrow> jv \<Rightarrow> string \<Rightarrow> string \<Rightarrow> error + result" where
  "parseTripShotCommutePlanForOrigin env clock ver json originStopId originLabel =
     bindE (collect_buckets env clock ver json originStopId) (\<lambda>buckets.
     Inr \<lparr>stopName = originLabel,
          green = take 3 (js_sort env (bk_green buckets)),
          red = take 3 (js_sort env (bk_red buckets)),
          blue = take 3 (js_sort env (bk_blue buckets))\<rparr>)"

section \<open>The future-trip filter\<close>

text \<open>
  \<^verbatim>\<open>new Date().toLocaleString("en-US", {timeZone: "America/New_York"})\<close> at the instant
  \<open>t\<close>: the wall-clock time of New York, which the format gives to the second.
\<close>

definition ny_wall_clock :: "js_env \<Rightarrow> int \<Rightarrow> int" where
  "ny_wall_clock env t = ((t + ny_utc_offset env t) div 1000) * 1000"

text \<open>
  \<^verbatim>\<open>getNYCTime\<close> at the instant \<open>t\<close> of \<^verbatim>\<open>new Date()\<close>: the process reads that string
  back as a date, in its own zone. The date it gives is the \<open>now\<close> of the filter.
\<close>

definition getNYCTime :: "js_env \<Rightarrow> int \<Rightarrow> int option" where
  "getNYCTime env t = read_local env (ny_wall_clock env t)"

text \<open>\<^verbatim>\<open>a >= b\<close> on dates: false when either is invalid.\<close>

fun ms_ge :: "int option \<Rightarrow> int option \<Rightarrow> bool" where
  "ms_ge (Some a) (Some b) = (b \<le> a)"
| "ms_ge a b = False"

fun filter_trips :: "js_env \<Rightarrow> int option \<Rightarrow> entry list \<Rightarrow> error + entry list" where
  "filter_trips env now [] = Inr []"
| "filter_trips env now (t # ts) =
     bindE (if \<not> truthy (rawISO t) then Inr False
            else bindE (new_date env (rawISO t)) (\<lambda>d. Inr (ms_ge d now))) (\<lambda>keep.
     bindE (filter_trips env now ts) (\<lambda>rest.
     Inr (if keep then t # rest else rest)))"

definition filterTripsAfterNYCNow :: "js_env \<Rightarrow> int \<Rightarrow> entry list \<Rightarrow> error + entry list" where
  "filterTripsAfterNYCNow env t trips = filter_trips env (getNYCTime env t) trips"

section \<open>Vocabulary of the specification\<close>

text \<open>
  ``First present of'' a list of field names: the value of the first field of the
  record that holds a usable (truthy) value.
\<close>

definition first_present :: "jv \<Rightarrow> string list \<Rightarrow> jv option" where
  "first_present node names = find truthy (map (fld node) names)"

definition sched_fields :: "string list" where
  "sched_fields = [''scheduledDepartureTime'', ''scheduledArrivalTime'', ''scheduledAt'']"

definition live_fields :: "string list" where
  "live_fields = [''expectedArrivalTime'', ''expectedDepartureTime''] @ sched_fields"

definition dest_fields :: "string list" where
  "dest_fields = [''expectedArrivalTime'', ''scheduledArrivalTime'', ''scheduledAt'']"

text \<open>
  The stop-status records of a ride, out of their envelopes, in sequence order, and the
  record of a stop: the last one whose identifier, in lower case, is the given one.
\<close>

definition stop_records :: "jv list \<Rightarrow> jv list" where
  "stop_records statuses = map unwrap (filter truthy statuses)"

definition record_at :: "string \<Rightarrow> jv list \<Rightarrow> jv option" where
  "record_at sid statuses =
     (case filter (\<lambda>r. stop_sid r = Inr sid) (stop_records statuses) of
        [] \<Rightarrow> None
      | r # rs \<Rightarrow> Some (last (r # rs)))"

text \<open>A record with one field taken away.\<close>

fun without :: "string \<Rightarrow> jv \<Rightarrow> jv" where
  "without f (Obj kvs) = Obj (filter (\<lambda>kv. fst kv \<noteq> f) kvs)"
| "without f v = v"


text \<open>Two chains give the same usable time, or neither gives one.\<close>

definition same_time :: "jv \<Rightarrow> jv \<Rightarrow> bool" where
  "same_time a b = (if truthy a then b = a else \<not> truthy b)"

text \<open>A result with the time-relative field of every entry blanked.\<close>

definition blank_minutes :: "entry \<Rightarrow> entry" where
  "blank_minutes e = e\<lparr>inMinutes := None\<rparr>"

definition blank_result :: "result \<Rightarrow> result" where
  "blank_result r =
     r\<lparr>green := map blank_minutes (green r), red := map blank_minutes (red r),
       blue := map blank_minutes (blue r)\<rparr>"

definition blank_state :: "run_state \<Rightarrow> run_state" where
  "blank_state st =
     st\<lparr>bk_green := map blank_minutes (bk_green st), bk_red := map blank_minutes (bk_red st),
        bk_blue := map blank_minutes (bk_blue st)\<rparr>"

text \<open>The number of rides of a document: a bound on the readings of the clock in a run.\<close>

definition n_rides :: "jv \<Rightarrow> nat" where
  "n_rides json =
     (case iterate (js_or (fld json ''rides'') (Arr [])) of Inr rides \<Rightarrow> length rides | Inl err \<Rightarrow> 0)"

text \<open>
  Orders on entries by the instant of the raw timestamp: strictly earlier, and not
  later. Neither holds when a timestamp is no valid date.
\<close>

definition strictly_earlier :: "js_env \<Rightarrow> entry \<Rightarrow> entry \<Rightarrow> bool" where
  "strictly_earlier env a b = ms_less (entry_ms env a) (entry_ms env b)"

definition not_later :: "js_env \<Rightarrow> entry \<Rightarrow> entry \<Rightarrow> bool" where
  "not_later env a b = ms_ge (entry_ms env b) (entry_ms env a)"

definition valid_stamp :: "js_env \<Rightarrow> entry \<Rightarrow> bool" where
  "valid_stamp env e = (entry_ms env e \<noteq> None)"

text \<open>
  An entry as the normalizer makes it: the raw timestamp is usable, and \<^verbatim>\<open>new Date\<close>
  accepts it.
\<close>

definition entry_ok :: "js_env \<Rightarrow> entry \<Rightarrow> bool" where
  "entry_ok env e = (truthy (rawISO e) \<and> (\<exists>d. new_date env (rawISO e) = Inr d))"

definition buckets_ok :: "js_env \<Rightarrow> run_state \<Rightarrow> bool" where
  "buckets_ok env st =
     (list_all (entry_ok env) (bk_green st) \<and> list_all (entry_ok env) (bk_red st) \<and>
      list_all (entry_ok env) (bk_blue st))"

text \<open>An entry that \<^verbatim>\<open>considerRide\<close> makes of one of the rides, for the bucket \<open>key\<close>.\<close>

definition from_rides :: "js_env \<Rightarrow> revision \<Rightarrow> string \<Rightarrow> jv list \<Rightarrow> string \<Rightarrow> entry \<Rightarrow> bool" where
  "from_rides env ver originIdLower rides key e =
     (\<exists>ride\<in>set rides. \<exists>now routeInfo.
        considerRide_entry env now ver originIdLower ride routeInfo = Inr (Some (key, e)))"

text \<open>The number of entries in the buckets of a run.\<close>

definition n_entries :: "run_state \<Rightarrow> nat" where
  "n_entries st = length (bk_green st) + length (bk_red st) + length (bk_blue st)"

subsection \<open>Documents of the expected shape\<close>

text \<open>
  A scalar is anything but an array or an object; a text is a string, or missing or
  \<^verbatim>\<open>null\<close>.
\<close>

fun scalar :: "jv \<Rightarrow> bool" where
  "scalar (Arr xs) = False"
| "scalar (Obj kvs) = False"
| "scalar v = True"

fun textual :: "jv \<Rightarrow> bool" where
  "textual (Str s) = True"
| "textual Undefined = True"
| "textual Null = True"
| "textual v = False"

text \<open>A list field: missing (or any other falsy value), or an array.\<close>

fun elements_of :: "jv \<Rightarrow> jv list option" where
  "elements_of (Arr xs) = Some xs"
| "elements_of v = (if truthy v then None else Some [])"

text \<open>
  A stop-status record: not \<^verbatim>\<open>null\<close>, with a text for its stop identifier and scalars
  in its time fields. A stop-status entry is falsy, or a record once out of its envelope.
\<close>

definition record_shaped :: "jv \<Rightarrow> bool" where
  "record_shaped r =
     (\<not> nullish r \<and> textual (fld r ''stopId'') \<and> list_all (\<lambda>f. scalar (fld r f)) live_fields)"

definition status_shaped :: "jv \<Rightarrow> bool" where
  "status_shaped w = (truthy w \<longrightarrow> record_shaped (unwrap w))"

definition ride_shaped :: "jv \<Rightarrow> bool" where
  "ride_shaped ride =
     (\<not> nullish ride \<and> scalar (fld ride ''mode'') \<and> scalar (fld ride ''type'') \<and>
      scalar (fld ride ''routeId'') \<and> scalar (fld ride ''routeServiceId'') \<and>
      (case elements_of (fld ride ''stopStatus'') of
         None \<Rightarrow> False
       | Some ws \<Rightarrow> list_all status_shaped ws))"

definition route_shaped :: "jv \<Rightarrow> bool" where
  "route_shaped r =
     (\<not> nullish r \<and> scalar (fld r ''routeId'') \<and> textual (fld r ''name'') \<and>
      textual (fld r ''shortName''))"

definition well_shaped :: "jv \<Rightarrow> bool" where
  "well_shaped json =
     (\<not> nullish json \<and>
      (case elements_of (fld json ''routes'') of
         None \<Rightarrow> False
       | Some rs \<Rightarrow> list_all route_shaped rs) \<and>
      (case elements_of (fld json ''rides'') of
         None \<Rightarrow> False
       | Some rs \<Rightarrow> list_all ride_shaped rs))"

text \<open>
  What holds of the directory built from routes of that shape, and of what a lookup in
  it returns.
\<close>

definition color_labels :: "string list" where
  "color_labels = [[], ''Green'', ''Red'', ''Blue'']"

definition route_record :: "jv \<Rightarrow> bool" where
  "route_record v =
     (\<exists>id name short c.
        v = Obj [(''id'', id), (''name'', Str name), (''shortName'', Str short),
                 (''colorLabel'', Str c)] \<and>
        scalar id \<and> c \<in> set color_labels)"

definition dir_wf :: "route_dir \<Rightarrow> bool" where
  "dir_wf dir =
     ((\<forall>kv\<in>set (own_props dir). route_record (snd kv)) \<and>
      (case proto_of dir of None \<Rightarrow> True | Some info \<Rightarrow> route_record info))"

definition info_ok :: "looked \<Rightarrow> bool" where
  "info_ok routeInfo =
     (textual (rfld routeInfo ''name'') \<and> textual (rfld routeInfo ''shortName'') \<and>
      (rfld routeInfo ''colorLabel'' = Undefined \<or>
       (\<exists>c\<in>set color_labels. rfld routeInfo ''colorLabel'' = Str c)))"

definition node_ok :: "jv \<Rightarrow> bool" where
  "node_ok n = (n = Null \<or> record_shaped n)"

section \<open>A sample environment and sample documents\<close>

text \<open>
  A process whose zone is New York on standard time (five hours behind UTC; the sample
  dates are in January), with a parser for timestamps of the form
  \<^verbatim>\<open>YYYY-MM-DDTHH:MM:SSZ\<close>. In that zone the New York wall clock, read back, is the
  instant itself cut to the second. The samples contain no numbers but one, which is
  never rendered, and no invalid date, so the order of the engine is never asked for.
\<close>

definition digit_of :: "char \<Rightarrow> nat option" where
  "digit_of c = map_of (zip ''0123456789'' [0, 1, 2, 3, 4, 5, 6, 7, 8, 9]) c"

fun digits_value :: "nat \<Rightarrow> string \<Rightarrow> nat option" where
  "digits_value n [] = Some n"
| "digits_value n (c # cs) =
     (case digit_of c of None \<Rightarrow> None | Some d \<Rightarrow> digits_value (10 * n + d) cs)"

definition leap_year :: "nat \<Rightarrow> bool" where
  "leap_year y = (y mod 4 = 0 \<and> (y mod 100 \<noteq> 0 \<or> y mod 400 = 0))"

definition days_in_month :: "nat \<Rightarrow> nat \<Rightarrow> nat" where
  "days_in_month y m =
     (if m = 2 then (if leap_year y then 29 else 28)
      else if m \<in> set [4, 6, 9, 11] then 30 else 31)"

text \<open>Days from 1970-01-01 to the given civil date.\<close>

definition days_from_civil :: "nat \<Rightarrow> nat \<Rightarrow> nat \<Rightarrow> int" where
  "days_from_civil y m d =
     (let y' = (if m \<le> 2 then int y - 1 else int y);
          era = y' div 400;
          yoe = y' - era * 400;
          mp = (if 2 < m then int m - 3 else int m + 9);
          doy = (153 * mp + 2) div 5 + int d - 1;
          doe = yoe * 365 + yoe div 4 - yoe div 100 + doy
      in era * 146097 + doe - 719468)"

definition utc_iso_parse :: "string \<Rightarrow> int option" where
  "utc_iso_parse s =
     (if length s = 20 \<and> s ! 4 = CHR ''-'' \<and> s ! 7 = CHR ''-'' \<and> s ! 10 = CHR ''T'' \<and>
         s ! 13 = CHR '':'' \<and> s ! 16 = CHR '':'' \<and> s ! 19 = CHR ''Z''
      then
        (case (digits_value 0 (take 4 s), digits_value 0 (take 2 (drop 5 s)),
               digits_value 0 (take 2 (drop 8 s)), digits_value 0 (take 2 (drop 11 s)),
               digits_value 0 (take 2 (drop 14 s)), digits_value 0 (take 2 (drop 17 s))) of
           (Some y, Some m, Some d, Some h, Some mi, Some sec) \<Rightarrow>
             (if 1 \<le> m \<and> m \<le> 12 \<and> 1 \<le> d \<and> d \<le> days_in_month y m \<and>
                 h < 24 \<and> mi < 60 \<and> sec < 60
              then Some (((days_from_civil y m d * 24 + int h) * 60 + int mi) * 60000
                         + int sec * 1000)
              else None)
         | _ \<Rightarrow> None)
      else None)"

definition sample_num_to_string :: "number \<Rightarrow> string" where
  "sample_num_to_string n =
     (case n of
        Finite q \<Rightarrow> (if 0 \<le> q \<and> of_int \<lfloor>q\<rfloor> = q then show_nat (nat \<lfloor>q\<rfloor>) else ''?'')
      | PosInf \<Rightarrow> ''Infinity''
      | NegInf \<Rightarrow> ''-Infinity'')"

definition sample_env :: js_env where
  "sample_env =
     \<lparr>num_to_string = sample_num_to_string,
      date_parse = utc_iso_parse,
      local_hours = (\<lambda>t. nat (((t - 18000000) div 3600000) mod 24)),
      local_minutes = (\<lambda>t. nat ((t div 60000) mod 60)),
      ny_utc_offset = (\<lambda>t. - 18000000),
      read_local = (\<lambda>w. Some (w + 18000000)),
      engine_order = (\<lambda>ks. [0..<length ks])\<rparr>"


definition EC_S_STOP_ID :: string where
  "EC_S_STOP_ID = ''EC00CCCF-1599-454B-A90A-05F7FAD06576''"

text \<open>
  A ride of the route \<^verbatim>\<open>r1\<close>: the record of the origin stop, in an envelope,
  scheduled at 10:00 and expected at 10:03, then the record of the 96th St stop at 10:15.
\<close>

definition sample_origin_record :: jv where
  "sample_origin_record =
     Obj [(''stopId'', Str ''ec00cccf-1599-454b-a90a-05f7fad06576''),
          (''scheduledArrivalTime'', Str ''2024-01-15T10:00:00Z''),
          (''expectedArrivalTime'', Str ''2024-01-15T10:03:00Z'')]"

definition sample_dest_record :: jv where
  "sample_dest_record =
     Obj [(''stopId'', Str ''A5C97705-8217-4D82-A778-01DAA12322A6''),
          (''scheduledArrivalTime'', Str ''2024-01-15T10:15:00Z'')]"

definition sample_ride :: jv where
  "sample_ride =
     Obj [(''routeId'', Str ''r1''),
          (''stopStatus'', Arr [Obj [(''Scheduled'', sample_origin_record)], sample_dest_record])]"

definition sample_green_route :: looked where
  "sample_green_route =
     Val (Obj [(''id'', Str ''r1''), (''name'', Str ''Green Loop''),
               (''shortName'', Str ''Green Loop''), (''colorLabel'', Str ''Green'')])"

definition sample_entry :: entry where
  "sample_entry =
     \<lparr>routeName = Str ''Green Loop'', color = Str ''Green'', time = ''5:03 am'',
      rawISO = Str ''2024-01-15T10:03:00Z'', inMinutes = Some 16, direct = True,
      delayed = True\<rparr>"

text \<open>
  An origin record whose expected arrival, expected departure and scheduled departure
  are the empty string, with a scheduled arrival at 10:00 and a scheduled-at at 10:30;
  a record whose five time fields all are the empty string, and a ride with only the
  latter.
\<close>

definition sample_gap_record :: jv where
  "sample_gap_record =
     Obj [(''stopId'', Str ''EC00CCCF-1599-454B-A90A-05F7FAD06576''),
          (''expectedArrivalTime'', Str []), (''expectedDepartureTime'', Str []),
          (''scheduledDepartureTime'', Str []),
          (''scheduledArrivalTime'', Str ''2024-01-15T10:00:00Z''),
          (''scheduledAt'', Str ''2024-01-15T10:30:00Z'')]"

definition sample_blank_record :: jv where
  "sample_blank_record =
     Obj [(''stopId'', Str ''EC00CCCF-1599-454B-A90A-05F7FAD06576''),
          (''scheduledDepartureTime'', Str []), (''scheduledArrivalTime'', Str []),
          (''scheduledAt'', Str []), (''expectedArrivalTime'', Str []),
          (''expectedDepartureTime'', Str [])]"

definition sample_blank_ride :: jv where
  "sample_blank_ride = Obj [(''routeId'', Str ''r1''), (''stopStatus'', Arr [sample_blank_record])]"



text \<open>A ride that stops at the origin twice, expected at 10:03 and then at 10:20.\<close>

definition sample_second_origin_record :: jv where
  "sample_second_origin_record =
     Obj [(''stopId'', Str ''EC00CCCF-1599-454B-A90A-05F7FAD06576''),
          (''expectedArrivalTime'', Str ''2024-01-15T10:20:00Z'')]"

definition sample_ride_twice :: jv where
  "sample_ride_twice =
     Obj [(''routeId'', Str ''r1''),
          (''stopStatus'', Arr [sample_origin_record, sample_second_origin_record])]"

definition sample_entry_twice :: entry where
  "sample_entry_twice =
     \<lparr>routeName = Str ''Green Loop'', color = Str ''Green'', time = ''5:20 am'',
      rawISO = Str ''2024-01-15T10:20:00Z'', inMinutes = Some 33, direct = False,
      delayed = False\<rparr>"

text \<open>The buckets after the sample ride alone, on an unknown route.\<close>

definition sample_shuttle_entry :: entry where
  "sample_shuttle_entry =
     \<lparr>routeName = Str ''Shuttle'', color = Str ''blue'', time = ''5:03 am'',
      rawISO = Str ''2024-01-15T10:03:00Z'', inMinutes = Some 16, direct = True,
      delayed = True\<rparr>"

definition sample_state :: run_state where
  "sample_state = \<lparr>bk_green = [], bk_red = [], bk_blue = [sample_shuttle_entry], reads = 1\<rparr>"

text \<open>
  A document with the routes \<^verbatim>\<open>Green Loop\<close> and \<^verbatim>\<open>Crimson Express\<close> and the sample ride,
  and its normalization for the origin \<^verbatim>\<open>EC S\<close> when the clock reads 09:46:40.
\<close>

definition sample_routes :: jv where
  "sample_routes =
     Arr [Obj [(''routeId'', Str ''r1''), (''name'', Str ''Green Loop'')],
          Obj [(''routeId'', Str ''r2''), (''name'', Str ''Crimson Express'')]]"

definition sample_doc :: jv where
  "sample_doc = Obj [(''routes'', sample_routes), (''rides'', Arr [sample_ride])]"

definition sample_result :: result where
  "sample_result = \<lparr>stopName = ''EC S'', green = [sample_entry], red = [], blue = []\<rparr>"

definition sample_clock :: "nat \<Rightarrow> int" where
  "sample_clock n = 1705312000000"

text \<open>A clock that agrees with the sample clock on the first reading only.\<close>

definition sample_clock_drift :: "nat \<Rightarrow> int" where
  "sample_clock_drift n = (if n = 0 then 1705312000000 else 1705312000000 + 60000 * int n)"

text \<open>A document with the sample ride twice, and its normalization.\<close>

definition sample_doc_twin :: jv where
  "sample_doc_twin = Obj [(''routes'', sample_routes), (''rides'', Arr [sample_ride, sample_ride])]"

definition sample_result_twin :: result where
  "sample_result_twin =
     \<lparr>stopName = ''EC S'', green = [sample_entry, sample_entry], red = [], blue = []\<rparr>"

text \<open>
  A ride of the route \<^verbatim>\<open>Crimson Express\<close>, whose name has no colour, and the entry
  that \<^verbatim>\<open>src/server.js\<close> makes of it.
\<close>

definition sample_ride_crimson :: jv where
  "sample_ride_crimson =
     Obj [(''routeId'', Str ''r2''),
          (''stopStatus'', Arr [Obj [(''Scheduled'', sample_origin_record)], sample_dest_record])]"

definition sample_doc_crimson :: jv where
  "sample_doc_crimson = Obj [(''routes'', sample_routes), (''rides'', Arr [sample_ride_crimson])]"

definition sample_entry_crimson :: entry where
  "sample_entry_crimson =
     \<lparr>routeName = Str ''Crimson Express'', color = Str ''Blue'', time = ''5:03 am'',
      rawISO = Str ''2024-01-15T10:03:00Z'', inMinutes = Some 16, direct = True,
      delayed = True\<rparr>"

text \<open>A document whose only stop-status record has a number for its stop identifier.\<close>

definition sample_doc_numeric_stop :: jv where
  "sample_doc_numeric_stop =
     Obj [(''rides'', Arr [Obj [(''stopStatus'', Arr [Obj [(''stopId'', Num (Finite 42))]])]])]"


text \<open>
  The sample ride with one more record of the 96th St stop, which has no time, after
  the one at 10:15; and the entry made of it.
\<close>

definition sample_dest_blank :: jv where
  "sample_dest_blank = Obj [(''stopId'', Str ''A5C97705-8217-4D82-A778-01DAA12322A6'')]"

definition sample_ride_two_dest :: jv where
  "sample_ride_two_dest =
     Obj [(''routeId'', Str ''r1''),
          (''stopStatus'',
           Arr [Obj [(''Scheduled'', sample_origin_record)], sample_dest_record,
                sample_dest_blank])]"

definition sample_entry_indirect :: entry where
  "sample_entry_indirect =
     \<lparr>routeName = Str ''Green Loop'', color = Str ''Green'', time = ''5:03 am'',
      rawISO = Str ''2024-01-15T10:03:00Z'', inMinutes = Some 16, direct = False,
      delayed = True\<rparr>"

section \<open>Basic facts\<close>

lemma bindE_Inr [simp]: "bindE (Inr v) f = f v"
  by (simp add: bindE_def)

lemma bindE_Inl [simp]: "bindE (Inl e) f = Inl e"
  by (simp add: bindE_def)

lemma bindE_Inr_iff: "bindE m f = Inr y \<longleftrightarrow> (\<exists>v. m = Inr v \<and> f v = Inr y)"
  by (cases m) simp_all

subsection \<open>Envelopes and the scan of the stop statuses\<close>

lemma unwrap_Arr: "unwrap (Arr xs) = Arr xs \<or> typeof_object (unwrap (Arr xs))"
proof (cases xs)
  case Nil
  then show ?thesis by simp
next
  case (Cons v vs)
  then show ?thesis by (cases vs) simp_all
qed

lemma unwrap_Obj: "unwrap (Obj kvs) = Obj kvs \<or> typeof_object (unwrap (Obj kvs))"
  by (simp split: list.splits)

lemma unwrap_cases: "unwrap w = w \<or> typeof_object (unwrap w)"
proof (cases w)
  case (Arr xs)
  then show ?thesis using unwrap_Arr [of xs] by blast
next
  case (Obj kvs)
  then show ?thesis using unwrap_Obj [of kvs] by blast
qed simp_all

lemma typeof_object_truthy: "typeof_object v \<Longrightarrow> \<not> nullish v \<Longrightarrow> truthy v"
  by (cases v) simp_all

lemma truthy_unwrap: "truthy w \<Longrightarrow> \<not> nullish (unwrap w) \<Longrightarrow> truthy (unwrap w)"
  using unwrap_cases [of w] typeof_object_truthy [of "unwrap w"] by auto

lemma stop_sid_not_nullish: "stop_sid r = Inr s \<Longrightarrow> \<not> nullish r"
  by (auto simp: stop_sid_def get_def bindE_Inr_iff split: if_splits)

lemma record_at_Nil [simp]: "record_at sid [] = None"
  by (simp add: record_at_def stop_records_def)

lemma record_at_Cons:
  "record_at sid (w # ws) =
     (case record_at sid ws of
        Some r \<Rightarrow> Some r
      | None \<Rightarrow> (if truthy w \<and> stop_sid (unwrap w) = Inr sid then Some (unwrap w) else None))"
  by (simp add: record_at_def stop_records_def split: list.splits)

lemma record_at_truthy: "record_at sid statuses = Some r \<Longrightarrow> truthy r \<and> stop_sid r = Inr sid"
proof (induction statuses)
  case Nil
  then show ?case by simp
next
  case (Cons w ws)
  show ?case
  proof (cases "record_at sid ws")
    case None
    with Cons.prems have w: "truthy w" "stop_sid (unwrap w) = Inr sid" "r = unwrap w"
      by (auto simp: record_at_Cons split: if_splits)
    from w(2) have "\<not> nullish (unwrap w)" by (rule stop_sid_not_nullish)
    with w show ?thesis by (simp add: truthy_unwrap)
  next
    case (Some r')
    with Cons show ?thesis by (simp add: record_at_Cons)
  qed
qed

lemma scan_step_falsy: "\<not> truthy w \<Longrightarrow> scan_step o_id acc w = Inr acc"
  by (simp add: scan_step_def)

lemma scan_step_truthy:
  "truthy w \<Longrightarrow> scan_step o_id acc w = Inr acc' \<Longrightarrow>
     \<exists>sid. stop_sid (unwrap w) = Inr sid \<and>
       fst acc' = (if sid = o_id then unwrap w else fst acc) \<and>
       snd acc' = (if sid = ninetySixIdLower then unwrap w else snd acc)"
  by (cases "stop_sid (unwrap w)") (auto simp: scan_step_def)

text \<open>The scan keeps, for each of the two stops, the last record that matches it.\<close>

lemma scan_statuses_record_at:
  "scan_statuses o_id acc statuses = Inr nodes \<Longrightarrow>
     fst nodes = (case record_at o_id statuses of None \<Rightarrow> fst acc | Some r \<Rightarrow> r) \<and>
     snd nodes = (case record_at ninetySixIdLower statuses of None \<Rightarrow> snd acc | Some r \<Rightarrow> r)"
proof (induction statuses arbitrary: acc)
  case Nil
  then show ?case by simp
next
  case (Cons w ws)
  from Cons.prems obtain acc' where step: "scan_step o_id acc w = Inr acc'"
    and rest: "scan_statuses o_id acc' ws = Inr nodes"
    by (auto simp: bindE_Inr_iff)
  note IH = Cons.IH [OF rest]
  show ?case
  proof (cases "truthy w")
    case False
    with step have "acc' = acc" by (simp add: scan_step_falsy)
    with IH False show ?thesis by (simp add: record_at_Cons split: option.splits)
  next
    case True
    from scan_step_truthy [OF True step] obtain sid where
      sid: "stop_sid (unwrap w) = Inr sid"
      and f: "fst acc' = (if sid = o_id then unwrap w else fst acc)"
      and s: "snd acc' = (if sid = ninetySixIdLower then unwrap w else snd acc)"
      by blast
    from IH True sid f s show ?thesis
      by (simp add: record_at_Cons split: option.splits)
  qed
qed

lemma scan_nodes:
  assumes "scan_statuses o_id (Null, Null) statuses = Inr nodes"
  shows "fst nodes = (case record_at o_id statuses of None \<Rightarrow> Null | Some r \<Rightarrow> r)"
    and "snd nodes = (case record_at ninetySixIdLower statuses of None \<Rightarrow> Null | Some r \<Rightarrow> r)"
  using scan_statuses_record_at [OF assms] by (simp_all split: option.splits)

subsection \<open>The fallback chains\<close>

lemma scheduled_first_present:
  "first_present n sched_fields =
     (if truthy (scheduledTime_of n) then Some (scheduledTime_of n) else None)"
  by (simp add: first_present_def sched_fields_def scheduledTime_of_def js_or_def)

lemma live_first_present:
  "first_present n live_fields =
     (if truthy (liveTime_of n) then Some (liveTime_of n) else None)"
  by (simp add: first_present_def live_fields_def sched_fields_def liveTime_of_def
      scheduledTime_of_def js_or_def)

lemma dest_first_present:
  "first_present n dest_fields =
     (if truthy (ninetySixTime_of n) then Some (ninetySixTime_of n) else None)"
  by (simp add: first_present_def dest_fields_def ninetySixTime_of_def js_or_def)

subsection \<open>What \<^verbatim>\<open>considerRide\<close> has done when it pushes an entry\<close>

lemma considerRide_entry_Some:
  assumes "considerRide_entry env now ver originIdLower ride routeInfo = Inr (Some (key, e))"
  shows "\<exists>statuses nodes liveDate.
           truthy ride \<and> ltruthy routeInfo \<and>
           excluded_route ver routeInfo = Inr False \<and>
           ride_statuses ride = Inr statuses \<and>
           scan_statuses originIdLower (Null, Null) statuses = Inr nodes \<and>
           truthy (fst nodes) \<and> truthy (liveTime_of (fst nodes)) \<and>
           reaches96_of env (liveTime_of (fst nodes)) (snd nodes) = Inr (direct e) \<and>
           color_key env ver routeInfo = Inr key \<and>
           new_date env (liveTime_of (fst nodes)) = Inr liveDate \<and>
           display_color ver routeInfo key = Inr (color e) \<and>
           formatTime env (liveTime_of (fst nodes)) = Inr (time e) \<and>
           minutesFromNow env now (liveTime_of (fst nodes)) = Inr (inMinutes e) \<and>
           delayed_of env liveDate (scheduledTime_of (fst nodes)) = Inr (delayed e) \<and>
           rawISO e = liveTime_of (fst nodes) \<and>
           routeName e = rfld routeInfo ''name''"
  using assms unfolding considerRide_entry_def
  by (auto simp: bindE_Inr_iff split: if_splits)

lemma delay_over_1min_iff:
  "delay_over_1min a b \<longleftrightarrow> (\<exists>l s. a = Some l \<and> b = Some s \<and> 60000 < l - s)"
  by (cases a; cases b) simp_all

lemma ms_less_iff: "ms_less a b \<longleftrightarrow> (\<exists>x y. a = Some x \<and> b = Some y \<and> x < y)"
  by (cases a; cases b) simp_all

lemma delayed_of_iff:
  "delayed_of env liveDate sched = Inr b \<Longrightarrow>
     b \<longleftrightarrow> (truthy sched \<and>
       (\<exists>l s. liveDate = Some l \<and> new_date env sched = Inr (Some s) \<and> 60000 < l - s))"
  by (auto simp: delayed_of_def bindE_Inr_iff delay_over_1min_iff split: if_splits)

lemma reaches96_of_iff:
  "reaches96_of env live node = Inr b \<Longrightarrow>
     b \<longleftrightarrow> (truthy node \<and> truthy (ninetySixTime_of node) \<and>
       (\<exists>l t. new_date env live = Inr (Some l) \<and>
              new_date env (ninetySixTime_of node) = Inr (Some t) \<and> l < t))"
  by (auto simp: reaches96_of_def bindE_Inr_iff ms_less_iff split: if_splits)

section \<open>The delay flag\<close>

text \<open>
  Claim C1. For every ride that yields an entry, the entry is flagged \<open>delayed\<close> if and
  only if the origin record has a scheduled time (the first present of the scheduled
  fields) and the live time, which is the raw timestamp of the entry, is more than one
  minute (60000 ms) after it. A ride that is early, on time or at most one minute late
  is not flagged, and neither is one whose scheduled or live time is not a valid date.
  This holds of both revisions.
\<close>

theorem delayed_iff_over_one_minute:
  assumes "considerRide_entry env now ver originIdLower ride routeInfo = Inr (Some (key, e))"
  shows "\<exists>statuses originNode.
           ride_statuses ride = Inr statuses \<and>
           record_at originIdLower statuses = Some originNode \<and>
           first_present originNode live_fields = Some (rawISO e) \<and>
           (delayed e \<longleftrightarrow>
              (\<exists>sched live_ms sched_ms.
                 first_present originNode sched_fields = Some sched \<and>
                 new_date env (rawISO e) = Inr (Some live_ms) \<and>
                 new_date env sched = Inr (Some sched_ms) \<and>
                 60000 < live_ms - sched_ms))"
proof -
  from considerRide_entry_Some [OF assms] obtain statuses nodes liveDate where
    st: "ride_statuses ride = Inr statuses"
    and scan: "scan_statuses originIdLower (Null, Null) statuses = Inr nodes"
    and orig: "truthy (fst nodes)"
    and live: "truthy (liveTime_of (fst nodes))"
    and date: "new_date env (liveTime_of (fst nodes)) = Inr liveDate"
    and late: "delayed_of env liveDate (scheduledTime_of (fst nodes)) = Inr (delayed e)"
    and raw: "rawISO e = liveTime_of (fst nodes)"
    by blast
  from scan_nodes(1) [OF scan] orig
  have rec: "record_at originIdLower statuses = Some (fst nodes)"
    by (cases "record_at originIdLower statuses") simp_all
  have lv: "first_present (fst nodes) live_fields = Some (rawISO e)"
    using live raw by (simp add: live_first_present)
  have "delayed e \<longleftrightarrow>
          (\<exists>sched live_ms sched_ms.
             first_present (fst nodes) sched_fields = Some sched \<and>
             new_date env (rawISO e) = Inr (Some live_ms) \<and>
             new_date env sched = Inr (Some sched_ms) \<and>
             60000 < live_ms - sched_ms)"
    using delayed_of_iff [OF late] date raw
    by (auto simp: scheduled_first_present)
  with st rec lv show ?thesis by blast
qed

text \<open>
  The sample ride, scheduled at 10:00 and expected at 10:03, yields an entry flagged
  \<open>delayed\<close>.
\<close>

theorem delayed_iff_over_one_minute_witness:
  "considerRide_entry sample_env 1705312000000 V15 (toLowerCase EC_S_STOP_ID) sample_ride
     sample_green_route = Inr (Some (''green'', sample_entry)) \<and>
   delayed sample_entry \<and>
   (\<exists>statuses originNode sched live_ms sched_ms.
      ride_statuses sample_ride = Inr statuses \<and>
      record_at (toLowerCase EC_S_STOP_ID) statuses = Some originNode \<and>
      first_present originNode sched_fields = Some sched \<and>
      new_date sample_env (rawISO sample_entry) = Inr (Some live_ms) \<and>
      new_date sample_env sched = Inr (Some sched_ms) \<and>
      60000 < live_ms - sched_ms)"
proof -
  have h: "considerRide_entry sample_env 1705312000000 V15 (toLowerCase EC_S_STOP_ID)
     sample_ride sample_green_route = Inr (Some (''green'', sample_entry))"
    by code_simp
  have d: "delayed sample_entry"
    by (simp add: sample_entry_def)
  from delayed_iff_over_one_minute [OF h] d h show ?thesis
    by blast
qed

section \<open>The direct flag\<close>

text \<open>
  Claim C2, as the code has it. For every ride that yields an entry, the entry is
  \<open>direct\<close> if and only if the ride has a record of the 96th St stop, the last such
  record has a usable time (the first present of expected arrival, scheduled arrival,
  scheduled-at), and the origin live time is strictly earlier than it. Without a
  destination record, without a usable time in the last one, or with a date that is not
  valid, the entry is not direct. Only the last record of the 96th St stop counts, the
  one the scan resolves; an earlier one with a usable later time does not make the entry
  direct. This holds of both revisions.
\<close>

theorem direct_iff_destination_later:
  assumes "considerRide_entry env now ver originIdLower ride routeInfo = Inr (Some (key, e))"
  shows "\<exists>statuses.
           ride_statuses ride = Inr statuses \<and>
           (direct e \<longleftrightarrow>
              (\<exists>dest t live_ms dest_ms.
                 record_at ninetySixIdLower statuses = Some dest \<and>
                 first_present dest dest_fields = Some t \<and>
                 new_date env (rawISO e) = Inr (Some live_ms) \<and>
                 new_date env t = Inr (Some dest_ms) \<and>
                 live_ms < dest_ms))"
proof -
  from considerRide_entry_Some [OF assms] obtain statuses nodes where
    st: "ride_statuses ride = Inr statuses"
    and scan: "scan_statuses originIdLower (Null, Null) statuses = Inr nodes"
    and r96: "reaches96_of env (liveTime_of (fst nodes)) (snd nodes) = Inr (direct e)"
    and raw: "rawISO e = liveTime_of (fst nodes)"
    by blast
  note node = scan_nodes(2) [OF scan]
  have "direct e \<longleftrightarrow>
          (\<exists>dest t live_ms dest_ms.
             record_at ninetySixIdLower statuses = Some dest \<and>
             first_present dest dest_fields = Some t \<and>
             new_date env (rawISO e) = Inr (Some live_ms) \<and>
             new_date env t = Inr (Some dest_ms) \<and>
             live_ms < dest_ms)"
  proof (cases "record_at ninetySixIdLower statuses")
    case None
    with node reaches96_of_iff [OF r96] show ?thesis by simp
  next
    case (Some dest)
    with record_at_truthy have "truthy dest" by blast
    with Some node reaches96_of_iff [OF r96] raw show ?thesis
      by (auto simp: dest_first_present)
  qed
  with st show ?thesis by blast
qed

text \<open>
  The sample ride reaches 96th St at 10:15, after the origin at 10:03: its entry is
  direct.
\<close>

theorem direct_iff_destination_later_witness:
  "considerRide_entry sample_env 1705312000000 V14 (toLowerCase EC_S_STOP_ID) sample_ride
     sample_green_route = Inr (Some (''green'', sample_entry)) \<and>
   direct sample_entry \<and>
   (\<exists>statuses dest t live_ms dest_ms.
      ride_statuses sample_ride = Inr statuses \<and>
      record_at ninetySixIdLower statuses = Some dest \<and>
      first_present dest dest_fields = Some t \<and>
      new_date sample_env (rawISO sample_entry) = Inr (Some live_ms) \<and>
      new_date sample_env t = Inr (Some dest_ms) \<and>
      live_ms < dest_ms)"
proof -
  have h: "considerRide_entry sample_env 1705312000000 V14 (toLowerCase EC_S_STOP_ID)
     sample_ride sample_green_route = Inr (Some (''green'', sample_entry))"
    by code_simp
  have d: "direct sample_entry"
    by (simp add: sample_entry_def)
  from direct_iff_destination_later [OF h] d h show ?thesis
    by blast
qed

text \<open>
  The claim as stated asks only that some record of the 96th St stop with a usable later
  time exist. The sample ride with a second record of that stop, without a time, after
  the one at 10:15: a record of the stop with a usable time exists, the origin live time
  10:03 is strictly earlier than it, and the entry is not direct, in both revisions.
\<close>

theorem direct_needs_last_destination_counterexample:
  "considerRide_entry sample_env 1705312000000 V15 (toLowerCase EC_S_STOP_ID)
     sample_ride_two_dest sample_green_route = Inr (Some (''green'', sample_entry_indirect)) \<and>
   considerRide_entry sample_env 1705312000000 V14 (toLowerCase EC_S_STOP_ID)
     sample_ride_two_dest sample_green_route = Inr (Some (''green'', sample_entry_indirect)) \<and>
   \<not> direct sample_entry_indirect \<and>
   ride_statuses sample_ride_two_dest
     = Inr [Obj [(''Scheduled'', sample_origin_record)], sample_dest_record, sample_dest_blank] \<and>
   record_at ninetySixIdLower [sample_dest_record] = Some sample_dest_record \<and>
   first_present sample_dest_record dest_fields = Some (Str ''2024-01-15T10:15:00Z'') \<and>
   new_date sample_env (rawISO sample_entry_indirect) = Inr (Some 1705312980000) \<and>
   new_date sample_env (Str ''2024-01-15T10:15:00Z'') = Inr (Some 1705313700000) \<and>
   (1705312980000 :: int) < 1705313700000"
proof -
  have a: "considerRide_entry sample_env 1705312000000 V15 (toLowerCase EC_S_STOP_ID)
     sample_ride_two_dest sample_green_route = Inr (Some (''green'', sample_entry_indirect))"
    by code_simp
  have b: "considerRide_entry sample_env 1705312000000 V14 (toLowerCase EC_S_STOP_ID)
     sample_ride_two_dest sample_green_route = Inr (Some (''green'', sample_entry_indirect))"
    by code_simp
  have c: "\<not> direct sample_entry_indirect"
    by (simp add: sample_entry_indirect_def)
  have d: "ride_statuses sample_ride_two_dest
     = Inr [Obj [(''Scheduled'', sample_origin_record)], sample_dest_record, sample_dest_blank]"
    by (simp add: sample_ride_two_dest_def ride_statuses_def js_or_def)
  have e: "record_at ninetySixIdLower [sample_dest_record] = Some sample_dest_record"
    by code_simp
  have f: "first_present sample_dest_record dest_fields = Some (Str ''2024-01-15T10:15:00Z'')"
    by (simp add: first_present_def dest_fields_def sample_dest_record_def)
  have g: "new_date sample_env (rawISO sample_entry_indirect) = Inr (Some 1705312980000)"
    by code_simp
  have h: "new_date sample_env (Str ''2024-01-15T10:15:00Z'') = Inr (Some 1705313700000)"
    by code_simp
  from a b c d e f g h show ?thesis by simp
qed

section \<open>Which record is used\<close>


lemma record_at_None:
  "(\<forall>v\<in>set ws. truthy v \<longrightarrow> stop_sid (unwrap v) \<noteq> Inr sid) \<Longrightarrow> record_at sid ws = None"
  by (induction ws) (simp_all add: record_at_Cons)

lemma record_at_append_last:
  assumes "truthy w" and "stop_sid (unwrap w) = Inr sid"
    and "\<forall>v\<in>set post. truthy v \<longrightarrow> stop_sid (unwrap v) \<noteq> Inr sid"
  shows "record_at sid (pre @ w # post) = Some (unwrap w)"
proof (induction pre)
  case Nil
  from assms show ?case by (simp add: record_at_Cons record_at_None)
next
  case (Cons p ps)
  then show ?case by (simp add: record_at_Cons)
qed

lemma record_at_member:
  "record_at sid statuses = Some r \<Longrightarrow>
     \<exists>w\<in>set statuses. truthy w \<and> r = unwrap w \<and> stop_sid (unwrap w) = Inr sid"
proof (induction statuses)
  case Nil
  then show ?case by simp
next
  case (Cons w ws)
  then show ?case
    by (cases "record_at sid ws") (auto simp: record_at_Cons split: if_splits)
qed


text \<open>
  Claim C9. When several records of a ride match the origin stop, or several match the
  96th St stop, the last one in sequence order is the one the entry is derived from: for
  a record \<open>w\<close> that matches and is followed by no other match, the raw timestamp and
  the delay flag are computed from \<open>w\<close> when it matches the origin, and the direct flag
  from \<open>w\<close> when it matches the destination.
\<close>

theorem last_matching_record_is_used:
  assumes "considerRide_entry env now ver originIdLower ride routeInfo = Inr (Some (key, e))"
    and "ride_statuses ride = Inr (pre @ w # post)"
    and "truthy w" and "stop_sid (unwrap w) = Inr sid"
    and "\<forall>v\<in>set post. truthy v \<longrightarrow> stop_sid (unwrap v) \<noteq> Inr sid"
  shows "(sid = originIdLower \<longrightarrow>
            rawISO e = liveTime_of (unwrap w) \<and>
            (\<exists>liveDate. new_date env (rawISO e) = Inr liveDate \<and>
               delayed_of env liveDate (scheduledTime_of (unwrap w)) = Inr (delayed e))) \<and>
         (sid = ninetySixIdLower \<longrightarrow>
            reaches96_of env (rawISO e) (unwrap w) = Inr (direct e))"
proof -
  from considerRide_entry_Some [OF assms(1)] assms(2) obtain nodes liveDate where
    scan: "scan_statuses originIdLower (Null, Null) (pre @ w # post) = Inr nodes"
    and r96: "reaches96_of env (liveTime_of (fst nodes)) (snd nodes) = Inr (direct e)"
    and date: "new_date env (liveTime_of (fst nodes)) = Inr liveDate"
    and late: "delayed_of env liveDate (scheduledTime_of (fst nodes)) = Inr (delayed e)"
    and raw: "rawISO e = liveTime_of (fst nodes)"
    by auto
  have rec: "record_at sid (pre @ w # post) = Some (unwrap w)"
    using assms(3-5) by (rule record_at_append_last)
  have "fst nodes = unwrap w" if "sid = originIdLower"
    using scan_nodes(1) [OF scan] rec that by simp
  moreover have "snd nodes = unwrap w" if "sid = ninetySixIdLower"
    using scan_nodes(2) [OF scan] rec that by simp
  ultimately show ?thesis
    using r96 date late raw by auto
qed


text \<open>Of two origin records, expected at 10:03 and at 10:20, the second gives the time.\<close>

theorem last_matching_record_is_used_witness:
  "considerRide_entry sample_env 1705312000000 V15 (toLowerCase EC_S_STOP_ID) sample_ride_twice
     sample_green_route = Inr (Some (''green'', sample_entry_twice)) \<and>
   ride_statuses sample_ride_twice = Inr ([sample_origin_record] @ sample_second_origin_record # []) \<and>
   truthy sample_second_origin_record \<and>
   stop_sid (unwrap sample_second_origin_record) = Inr (toLowerCase EC_S_STOP_ID) \<and>
   rawISO sample_entry_twice = liveTime_of (unwrap sample_second_origin_record) \<and>
   rawISO sample_entry_twice = Str ''2024-01-15T10:20:00Z''"
proof -
  have h1: "considerRide_entry sample_env 1705312000000 V15 (toLowerCase EC_S_STOP_ID)
     sample_ride_twice sample_green_route = Inr (Some (''green'', sample_entry_twice))"
    by code_simp
  have h2: "ride_statuses sample_ride_twice
      = Inr ([sample_origin_record] @ sample_second_origin_record # [])"
    by (simp add: sample_ride_twice_def ride_statuses_def js_or_def)
  have h3: "truthy sample_second_origin_record"
    by (simp add: sample_second_origin_record_def)
  have h4: "stop_sid (unwrap sample_second_origin_record) = Inr (toLowerCase EC_S_STOP_ID)"
    by code_simp
  have h5: "\<forall>v\<in>set []. truthy v \<longrightarrow> stop_sid (unwrap v) \<noteq> Inr (toLowerCase EC_S_STOP_ID)"
    by simp
  from last_matching_record_is_used [OF h1 h2 h3 h4 h5]
  have r: "rawISO sample_entry_twice = liveTime_of (unwrap sample_second_origin_record)"
    by simp
  have "rawISO sample_entry_twice = Str ''2024-01-15T10:20:00Z''"
    by (simp add: sample_entry_twice_def)
  with h1 h2 h3 h4 r show ?thesis by blast
qed

section \<open>Empty strings in the fallback chains\<close>
lemma map_of_filter_key:
  "map_of (filter (\<lambda>kv. fst kv \<noteq> f) kvs) k = (if k = f then None else map_of kvs k)"
  by (induction kvs) auto

lemma fld_without: "fld (without f node) k = (if k = f \<and> (\<exists>kvs. node = Obj kvs) then Undefined else fld node k)"
  by (cases node) (simp_all add: map_of_filter_key)

lemma fld_without_empty:
  "fld node f = Str [] \<Longrightarrow> fld (without f node) k = (if k = f then Undefined else fld node k)"
  by (cases node) (simp_all add: map_of_filter_key)

lemma first_present_truthy: "first_present node names = Some v \<Longrightarrow> truthy v \<and> v \<in> fld node ` set names"
  by (auto simp: first_present_def find_Some_iff)


lemma first_present_without:
  "fld node f = Str [] \<Longrightarrow> first_present (without f node) names = first_present node names"
  by (induction names) (simp_all add: first_present_def fld_without_empty)

lemma same_time_chain:
  assumes "(if truthy a then Some a else None) = (if truthy b then Some b else None)"
  shows "same_time b a"
  using assms by (simp add: same_time_def split: if_splits)


lemma first_present_skip:
  assumes "\<forall>g\<in>set pre. fld node g = Str []" and "truthy (fld node c)"
  shows "first_present node (pre @ c # post) = Some (fld node c)"
  using assms by (induction pre) (simp_all add: first_present_def)

lemma chain_skip:
  assumes "\<forall>g\<in>set pre. fld node g = Str []" and "truthy (fld node c)"
    and "first_present node (pre @ c # post) = (if truthy v then Some v else None)"
  shows "v = fld node c"
  using first_present_skip [OF assms(1,2), of post] assms(3) by (simp split: if_splits)


text \<open>
  Claim C10. In each of the three fallback chains (scheduled time, live time, destination
  time) a field that holds the empty string counts as absent and the chain moves on:
  \<^item> when every field of a chain before the field \<open>c\<close> holds the empty string and \<open>c\<close>
    holds a usable value, the chain gives the value of \<open>c\<close>;
  \<^item> the chain gives the same usable time, or none, as it gives for the record without
    a field that holds the empty string.

  Consequently a ride whose origin record holds the empty string in all five time fields
  yields no entry.
\<close>

theorem empty_string_time_is_absent:
  "((\<forall>g\<in>set pre. fld node g = Str []) \<and> truthy (fld node c) \<longrightarrow>
      (sched_fields = pre @ c # post \<longrightarrow> scheduledTime_of node = fld node c) \<and>
      (live_fields = pre @ c # post \<longrightarrow> liveTime_of node = fld node c) \<and>
      (dest_fields = pre @ c # post \<longrightarrow> ninetySixTime_of node = fld node c)) \<and>
   (fld node f = Str [] \<longrightarrow>
      same_time (scheduledTime_of node) (scheduledTime_of (without f node)) \<and>
      same_time (liveTime_of node) (liveTime_of (without f node)) \<and>
      same_time (ninetySixTime_of node) (ninetySixTime_of (without f node))) \<and>
   (ride_statuses ride = Inr statuses \<and>
    record_at originIdLower statuses = Some originNode \<and>
    (\<forall>k\<in>set live_fields. fld originNode k = Str []) \<longrightarrow>
      (\<forall>x. considerRide_entry env now ver originIdLower ride routeInfo \<noteq> Inr (Some x)))"
proof (intro conjI impI allI)
  assume p: "(\<forall>g\<in>set pre. fld node g = Str []) \<and> truthy (fld node c)"
  then have p1: "\<forall>g\<in>set pre. fld node g = Str []" and p2: "truthy (fld node c)"
    by simp_all
  show "scheduledTime_of node = fld node c" if "sched_fields = pre @ c # post"
    using chain_skip [OF p1 p2, of post "scheduledTime_of node"] that
    by (simp add: scheduled_first_present)
  show "liveTime_of node = fld node c" if "live_fields = pre @ c # post"
    using chain_skip [OF p1 p2, of post "liveTime_of node"] that
    by (simp add: live_first_present)
  show "ninetySixTime_of node = fld node c" if "dest_fields = pre @ c # post"
    using chain_skip [OF p1 p2, of post "ninetySixTime_of node"] that
    by (simp add: dest_first_present)
next
  assume f: "fld node f = Str []"
  show "same_time (scheduledTime_of node) (scheduledTime_of (without f node))"
    using first_present_without [OF f, of sched_fields]
    by (intro same_time_chain) (simp add: scheduled_first_present)
  show "same_time (liveTime_of node) (liveTime_of (without f node))"
    using first_present_without [OF f, of live_fields]
    by (intro same_time_chain) (simp add: live_first_present)
  show "same_time (ninetySixTime_of node) (ninetySixTime_of (without f node))"
    using first_present_without [OF f, of dest_fields]
    by (intro same_time_chain) (simp add: dest_first_present)
next
  fix x
  assume a: "ride_statuses ride = Inr statuses \<and>
    record_at originIdLower statuses = Some originNode \<and>
    (\<forall>k\<in>set live_fields. fld originNode k = Str [])"
  show "considerRide_entry env now ver originIdLower ride routeInfo \<noteq> Inr (Some x)"
  proof
    assume "considerRide_entry env now ver originIdLower ride routeInfo = Inr (Some x)"
    then have some: "considerRide_entry env now ver originIdLower ride routeInfo
        = Inr (Some (fst x, snd x))"
      by simp
    from considerRide_entry_Some [OF some] a obtain nodes where
      scan: "scan_statuses originIdLower (Null, Null) statuses = Inr nodes"
      and live: "truthy (liveTime_of (fst nodes))"
      by auto
    from scan_nodes(1) [OF scan] a have "fst nodes = originNode" by simp
    with live have "first_present originNode live_fields = Some (liveTime_of originNode)"
      by (simp add: live_first_present)
    from first_present_truthy [OF this] a show False by auto
  qed
qed

text \<open>
  In the sample record the expected arrival, the expected departure and the scheduled
  departure are the empty string: the scheduled time, the live time and the destination
  time all are its scheduled arrival, 10:00, and not the scheduled-at that follows.
  Without the expected arrival the live time is the same. The ride whose origin record
  has only empty strings yields no entry.
\<close>

theorem empty_string_time_is_absent_witness:
  "sched_fields = [''scheduledDepartureTime''] @ ''scheduledArrivalTime'' # [''scheduledAt''] \<and>
   live_fields = [''expectedArrivalTime'', ''expectedDepartureTime'', ''scheduledDepartureTime'']
                   @ ''scheduledArrivalTime'' # [''scheduledAt''] \<and>
   dest_fields = [''expectedArrivalTime''] @ ''scheduledArrivalTime'' # [''scheduledAt''] \<and>
   fld sample_gap_record ''expectedArrivalTime'' = Str [] \<and>
   fld sample_gap_record ''expectedDepartureTime'' = Str [] \<and>
   fld sample_gap_record ''scheduledDepartureTime'' = Str [] \<and>
   fld sample_gap_record ''scheduledArrivalTime'' = Str ''2024-01-15T10:00:00Z'' \<and>
   truthy (fld sample_gap_record ''scheduledArrivalTime'') \<and>
   scheduledTime_of sample_gap_record = Str ''2024-01-15T10:00:00Z'' \<and>
   liveTime_of sample_gap_record = Str ''2024-01-15T10:00:00Z'' \<and>
   ninetySixTime_of sample_gap_record = Str ''2024-01-15T10:00:00Z'' \<and>
   liveTime_of (without ''expectedArrivalTime'' sample_gap_record)
     = Str ''2024-01-15T10:00:00Z'' \<and>
   ride_statuses sample_blank_ride = Inr [sample_blank_record] \<and>
   record_at (toLowerCase EC_S_STOP_ID) [sample_blank_record] = Some sample_blank_record \<and>
   map (fld sample_blank_record) live_fields = [Str [], Str [], Str [], Str [], Str []] \<and>
   considerRide_entry sample_env 0 V15 (toLowerCase EC_S_STOP_ID) sample_blank_ride
     sample_green_route = Inr None"
proof -
  have s: "sched_fields
      = [''scheduledDepartureTime''] @ ''scheduledArrivalTime'' # [''scheduledAt'']"
    by (simp add: sched_fields_def)
  have l: "live_fields
      = [''expectedArrivalTime'', ''expectedDepartureTime'', ''scheduledDepartureTime'']
          @ ''scheduledArrivalTime'' # [''scheduledAt'']"
    by (simp add: live_fields_def sched_fields_def)
  have d: "dest_fields = [''expectedArrivalTime''] @ ''scheduledArrivalTime'' # [''scheduledAt'']"
    by (simp add: dest_fields_def)
  have e: "\<forall>g\<in>set [''expectedArrivalTime'', ''expectedDepartureTime'',
      ''scheduledDepartureTime'']. fld sample_gap_record g = Str []"
    by (simp add: sample_gap_record_def)
  have c: "fld sample_gap_record ''scheduledArrivalTime'' = Str ''2024-01-15T10:00:00Z''"
    by (simp add: sample_gap_record_def)
  have t: "truthy (fld sample_gap_record ''scheduledArrivalTime'')"
    by (simp add: c)
  have h1: "fld sample_gap_record ''expectedArrivalTime'' = Str []"
    by (simp add: sample_gap_record_def)
  have h2: "ride_statuses sample_blank_ride = Inr [sample_blank_record]"
    by (simp add: sample_blank_ride_def ride_statuses_def js_or_def)
  have h3: "record_at (toLowerCase EC_S_STOP_ID) [sample_blank_record] = Some sample_blank_record"
    by code_simp
  have h4: "\<forall>k\<in>set live_fields. fld sample_blank_record k = Str []"
    by (simp add: live_fields_def sched_fields_def sample_blank_record_def)
  note sched = empty_string_time_is_absent [of "[''scheduledDepartureTime'']"
      sample_gap_record "''scheduledArrivalTime''" "[''scheduledAt'']"]
  note live = empty_string_time_is_absent [of
      "[''expectedArrivalTime'', ''expectedDepartureTime'', ''scheduledDepartureTime'']"
      sample_gap_record "''scheduledArrivalTime''" "[''scheduledAt'']"
      "''expectedArrivalTime''" sample_blank_ride "[sample_blank_record]"
      "toLowerCase EC_S_STOP_ID" sample_blank_record sample_env 0 V15 sample_green_route]
  note dest = empty_string_time_is_absent [of "[''expectedArrivalTime'']"
      sample_gap_record "''scheduledArrivalTime''" "[''scheduledAt'']"]
  from sched s e t c have vs: "scheduledTime_of sample_gap_record = Str ''2024-01-15T10:00:00Z''"
    by simp
  from live l e t c have vl: "liveTime_of sample_gap_record = Str ''2024-01-15T10:00:00Z''"
    by simp
  from dest d e t c have vd: "ninetySixTime_of sample_gap_record = Str ''2024-01-15T10:00:00Z''"
    by simp
  from live h1 vl have w: "liveTime_of (without ''expectedArrivalTime'' sample_gap_record)
     = Str ''2024-01-15T10:00:00Z''"
    by (simp add: same_time_def)
  from live h2 h3 h4 have "\<forall>x. considerRide_entry sample_env 0 V15 (toLowerCase EC_S_STOP_ID)
      sample_blank_ride sample_green_route \<noteq> Inr (Some x)"
    by blast
  moreover have "\<not> isl (considerRide_entry sample_env 0 V15 (toLowerCase EC_S_STOP_ID)
      sample_blank_ride sample_green_route)"
    by code_simp
  ultimately have n: "considerRide_entry sample_env 0 V15 (toLowerCase EC_S_STOP_ID)
      sample_blank_ride sample_green_route = Inr None"
    by (cases "considerRide_entry sample_env 0 V15 (toLowerCase EC_S_STOP_ID)
      sample_blank_ride sample_green_route") (auto intro: option.exhaust)
  have e1: "fld sample_gap_record ''expectedArrivalTime'' = Str []"
    and e2: "fld sample_gap_record ''expectedDepartureTime'' = Str []"
    and e3: "fld sample_gap_record ''scheduledDepartureTime'' = Str []"
    by (simp_all add: sample_gap_record_def)
  have h5: "map (fld sample_blank_record) live_fields = [Str [], Str [], Str [], Str [], Str []]"
    by (simp add: live_fields_def sched_fields_def sample_blank_record_def)
  show ?thesis
    by (intro conjI) (rule s l d e1 e2 e3 c t vs vl vd w h2 h3 h5 n)+
qed


section \<open>What one ride contributes\<close>


lemma considerRide_Inr:
  assumes "considerRide env clock ver o_id st ride routeInfo = Inr st'"
  shows "(considerRide_entry env (clock (reads st)) ver o_id ride routeInfo = Inr None \<and> st' = st) \<or>
         (\<exists>key e. considerRide_entry env (clock (reads st)) ver o_id ride routeInfo
                     = Inr (Some (key, e)) \<and>
                   bucket_push key e (st\<lparr>reads := Suc (reads st)\<rparr>) = Inr st')"
proof -
  from assms obtain r where
    r: "considerRide_entry env (clock (reads st)) ver o_id ride routeInfo = Inr r"
    and c: "(case r of None \<Rightarrow> Inr st
             | Some (colorKey, e) \<Rightarrow> bucket_push colorKey e (st\<lparr>reads := Suc (reads st)\<rparr>))
            = Inr st'"
    by (auto simp: considerRide_def bindE_Inr_iff)
  show ?thesis
  proof (cases r)
    case None
    with r c show ?thesis by simp
  next
    case (Some p)
    with r c show ?thesis by (cases p) auto
  qed
qed

lemma bucket_push_n_entries:
  "bucket_push key e st = Inr st' \<Longrightarrow> n_entries st' = Suc (n_entries st) \<and> reads st' = reads st"
  by (auto simp: bucket_push_def n_entries_def split: if_splits)

lemma ride_step_Inr:
  assumes "ride_step env clock ver o_id dir st ride = Inr st'"
  shows "st' = st \<or> (\<exists>routeInfo. considerRide env clock ver o_id st ride routeInfo = Inr st')"
  using assms by (auto simp: ride_step_def bindE_Inr_iff split: if_splits)

lemma toLowerCase_Nil_iff: "toLowerCase s = [] \<longleftrightarrow> s = []"
  by (simp add: toLowerCase_def)

lemma stop_sid_string:
  assumes "stop_sid r = Inr sid" and "sid \<noteq> []"
  shows "\<exists>s. fld r ''stopId'' = Str s \<and> toLowerCase s = sid"
proof -
  from assms(1) have l: "lower_of (js_or (fld r ''stopId'') (Str [])) = Inr sid"
    by (auto simp: stop_sid_def get_def bindE_Inr_iff split: if_splits)
  show ?thesis
  proof (cases "truthy (fld r ''stopId'')")
    case True
    with l have "lower_of (fld r ''stopId'') = Inr sid" by (simp add: js_or_def)
    then show ?thesis by (cases "fld r ''stopId''") simp_all
  next
    case False
    with l assms(2) show ?thesis by (simp add: js_or_def toLowerCase_def)
  qed
qed


text \<open>
  Claim C7. One pass of the loop over the rides leaves the buckets as they are or pushes
  exactly one entry, and it pushes one only if the stop statuses of the ride contain a
  record whose stop identifier, in lower case, is the requested origin identifier in
  lower case. (For the empty origin identifier a record without an identifier matches;
  the identifiers the server asks for are not empty.) This holds of both revisions.
\<close>

theorem ride_contributes_at_most_one:
  assumes "ride_step env clock ver (toLowerCase originStopId) dir st ride = Inr st'"
  shows "(st' = st \<or> (\<exists>key e. bucket_push key e (st\<lparr>reads := Suc (reads st)\<rparr>) = Inr st')) \<and>
         n_entries st' \<le> Suc (n_entries st) \<and>
         (st' \<noteq> st \<longrightarrow>
            (\<exists>statuses w. ride_statuses ride = Inr statuses \<and> w \<in> set statuses \<and> truthy w \<and>
               stop_sid (unwrap w) = Inr (toLowerCase originStopId) \<and>
               (originStopId \<noteq> [] \<longrightarrow>
                  (\<exists>sid. fld (unwrap w) ''stopId'' = Str sid \<and>
                         toLowerCase sid = toLowerCase originStopId))))"
proof (cases "st' = st")
  case True
  then show ?thesis by simp
next
  case False
  with ride_step_Inr [OF assms] obtain routeInfo where
    "considerRide env clock ver (toLowerCase originStopId) st ride routeInfo = Inr st'"
    by blast
  from considerRide_Inr [OF this] False obtain key e where
    entry: "considerRide_entry env (clock (reads st)) ver (toLowerCase originStopId) ride routeInfo
              = Inr (Some (key, e))"
    and push: "bucket_push key e (st\<lparr>reads := Suc (reads st)\<rparr>) = Inr st'"
    by blast
  from bucket_push_n_entries [OF push] have n: "n_entries st' \<le> Suc (n_entries st)"
    by (simp add: n_entries_def)
  from considerRide_entry_Some [OF entry] obtain statuses nodes where
    st: "ride_statuses ride = Inr statuses"
    and scan: "scan_statuses (toLowerCase originStopId) (Null, Null) statuses = Inr nodes"
    and orig: "truthy (fst nodes)"
    by blast
  from scan_nodes(1) [OF scan] orig
  have "record_at (toLowerCase originStopId) statuses = Some (fst nodes)"
    by (cases "record_at (toLowerCase originStopId) statuses") simp_all
  from record_at_member [OF this] obtain w where
    w: "w \<in> set statuses" "truthy w" "stop_sid (unwrap w) = Inr (toLowerCase originStopId)"
    by blast
  have "\<exists>sid. fld (unwrap w) ''stopId'' = Str sid \<and> toLowerCase sid = toLowerCase originStopId"
    if "originStopId \<noteq> []"
    using stop_sid_string [OF w(3)] that by (simp add: toLowerCase_Nil_iff)
  with st w push n show ?thesis by blast
qed


text \<open>
  The sample ride on an unknown route pushes one entry, and its first record is the
  origin's.
\<close>

theorem ride_contributes_at_most_one_witness:
  "ride_step sample_env (\<lambda>n. 1705312000000) V15 (toLowerCase EC_S_STOP_ID) empty_dir init_state
     sample_ride = Inr sample_state \<and>
   n_entries sample_state \<le> Suc (n_entries init_state) \<and>
   sample_state \<noteq> init_state \<and>
   (\<exists>statuses w sid. ride_statuses sample_ride = Inr statuses \<and> w \<in> set statuses \<and>
      truthy w \<and> fld (unwrap w) ''stopId'' = Str sid \<and>
      toLowerCase sid = toLowerCase EC_S_STOP_ID)"
proof -
  have h: "ride_step sample_env (\<lambda>n. 1705312000000) V15 (toLowerCase EC_S_STOP_ID) empty_dir
     init_state sample_ride = Inr sample_state"
    by code_simp
  have d: "sample_state \<noteq> init_state"
    by (simp add: sample_state_def init_state_def)
  have ne: "EC_S_STOP_ID \<noteq> []"
    by (simp add: EC_S_STOP_ID_def)
  from ride_contributes_at_most_one [OF h] d ne h show ?thesis
    by blast
qed


section \<open>The future-trip filter\<close>
lemma entry_ms_eq: "new_date env (rawISO e) = Inr d \<Longrightarrow> entry_ms env e = d"
  by (simp add: entry_ms_def)

lemma ms_ge_Some: "ms_ge d (Some now) = (case d of None \<Rightarrow> False | Some i \<Rightarrow> now \<le> i)"
  by (cases d) simp_all

lemma filter_trips_eq:
  assumes "list_all (entry_ok env) trips"
  shows "filter_trips env (Some now) trips
           = Inr (filter (\<lambda>e. case entry_ms env e of None \<Rightarrow> False | Some i \<Rightarrow> now \<le> i) trips)"
  using assms
proof (induction trips)
  case Nil
  then show ?case by simp
next
  case (Cons t ts)
  then obtain d where d: "new_date env (rawISO t) = Inr d" and t: "truthy (rawISO t)"
    by (auto simp: entry_ok_def)
  from Cons have rest: "filter_trips env (Some now) ts
      = Inr (filter (\<lambda>e. case entry_ms env e of None \<Rightarrow> False | Some i \<Rightarrow> now \<le> i) ts)"
    by simp
  show ?case
    by (simp add: rest d t entry_ms_eq [OF d] ms_ge_Some)
qed


text \<open>
  The date of \<^verbatim>\<open>getNYCTime\<close>, with an offset of whole seconds: in a process that reads
  wall-clock times in the zone of New York it is the instant of the call cut to the
  second; in a process in UTC it is that, moved by the offset of New York.
\<close>

lemma getNYCTime_reference_zone:
  assumes "ny_utc_offset env t = 1000 * k"
    and "read_local env (ny_wall_clock env t) = Some (ny_wall_clock env t - ny_utc_offset env t)"
  shows "getNYCTime env t = Some ((t div 1000) * 1000)"
proof -
  have "(t + 1000 * k) div 1000 = t div 1000 + k" by simp
  with assms show ?thesis
    by (simp add: getNYCTime_def ny_wall_clock_def algebra_simps)
qed

lemma getNYCTime_utc_process:
  assumes "ny_utc_offset env t = 1000 * k" and "read_local env = Some"
  shows "getNYCTime env t = Some ((t div 1000) * 1000 + ny_utc_offset env t)"
proof -
  have "(t + 1000 * k) div 1000 = t div 1000 + k" by simp
  with assms show ?thesis
    by (simp add: getNYCTime_def ny_wall_clock_def algebra_simps)
qed











section \<open>The clock\<close>

text \<open>
  The normalizer is a function of the environment, the clock, the revision, the document,
  the origin identifier and the label. The clock is read once for each entry, in
  \<^verbatim>\<open>minutesFromNow\<close>, and nowhere else.
\<close>


lemma error_unique: "(x :: error) = y"
  by (cases x; cases y) simp

lemma considerRide_entry_clock:
  "map_sum id (map_option (map_prod id blank_minutes))
     (considerRide_entry env n1 ver o_id ride routeInfo)
   = map_sum id (map_option (map_prod id blank_minutes))
     (considerRide_entry env n2 ver o_id ride routeInfo)"
  unfolding considerRide_entry_def
  by (auto simp: bindE_def blank_minutes_def minutesFromNow_def split: sum.splits
      intro: error_unique)

lemma blank_state_reads [simp]: "reads (blank_state st) = reads st"
  by (simp add: blank_state_def)

lemma blank_state_eq_iff:
  "blank_state a = blank_state b \<longleftrightarrow>
     map blank_minutes (bk_green a) = map blank_minutes (bk_green b) \<and>
     map blank_minutes (bk_red a) = map blank_minutes (bk_red b) \<and>
     map blank_minutes (bk_blue a) = map blank_minutes (bk_blue b) \<and>
     reads a = reads b"
  by (cases a; cases b) (auto simp: blank_state_def)

lemma bucket_push_blank:
  assumes "blank_state a = blank_state b" and "blank_minutes e1 = blank_minutes e2"
  shows "map_sum id blank_state (bucket_push key e1 (a\<lparr>reads := Suc (reads a)\<rparr>))
       = map_sum id blank_state (bucket_push key e2 (b\<lparr>reads := Suc (reads b)\<rparr>))"
  using assms by (auto simp: bucket_push_def blank_state_eq_iff)

lemma considerRide_blank:
  assumes "blank_state a = blank_state b"
  shows "map_sum id blank_state (considerRide env c1 ver o_id a ride routeInfo)
       = map_sum id blank_state (considerRide env c2 ver o_id b ride routeInfo)"
proof -
  let ?r1 = "considerRide_entry env (c1 (reads a)) ver o_id ride routeInfo"
  let ?r2 = "considerRide_entry env (c2 (reads b)) ver o_id ride routeInfo"
  have eq: "map_sum id (map_option (map_prod id blank_minutes)) ?r1
          = map_sum id (map_option (map_prod id blank_minutes)) ?r2"
    by (rule considerRide_entry_clock)
  show ?thesis
  proof (cases ?r1)
    case (Inl err)
    with eq obtain err' where "?r2 = Inl err'" by (cases ?r2) auto
    with Inl show ?thesis by (simp add: considerRide_def error_unique)
  next
    case r1: (Inr x)
    with eq obtain y where r2: "?r2 = Inr y" by (cases ?r2) auto
    show ?thesis
    proof (cases x)
      case None
      with eq r1 r2 have "y = None" by simp
      with None r1 r2 assms show ?thesis by (simp add: considerRide_def)
    next
      case (Some p)
      with eq r1 r2 obtain q where y: "y = Some q" and pq: "map_prod id blank_minutes p = map_prod id blank_minutes q"
        by (cases y) auto
      obtain k1 e1 where p: "p = (k1, e1)" by (cases p)
      obtain k2 e2 where q: "q = (k2, e2)" by (cases q)
      from pq p q have k: "k1 = k2" and e: "blank_minutes e1 = blank_minutes e2" by simp_all
      from bucket_push_blank [OF assms e, of k1] Some y p q k r1 r2 show ?thesis
        by (simp add: considerRide_def)
    qed
  qed
qed

lemma ride_step_blank:
  assumes "blank_state a = blank_state b"
  shows "map_sum id blank_state (ride_step env c1 ver o_id dir a ride)
       = map_sum id blank_state (ride_step env c2 ver o_id dir b ride)"
  using assms considerRide_blank [OF assms]
  by (auto simp: ride_step_def bindE_def split: sum.splits)

lemma rides_loop_blank:
  assumes "blank_state a = blank_state b"
  shows "map_sum id blank_state (rides_loop env c1 ver o_id dir a rides)
       = map_sum id blank_state (rides_loop env c2 ver o_id dir b rides)"
  using assms
proof (induction rides arbitrary: a b)
  case Nil
  then show ?case by simp
next
  case (Cons ride rides)
  from ride_step_blank [OF Cons.prems, of env c1 ver o_id dir ride c2]
  show ?case
  proof (cases "ride_step env c1 ver o_id dir a ride")
    case (Inl err)
    with ride_step_blank [OF Cons.prems, of env c1 ver o_id dir ride c2]
    obtain err' where "ride_step env c2 ver o_id dir b ride = Inl err'"
      by (cases "ride_step env c2 ver o_id dir b ride") auto
    with Inl show ?thesis by (simp add: error_unique)
  next
    case (Inr a')
    with ride_step_blank [OF Cons.prems, of env c1 ver o_id dir ride c2]
    obtain b' where b': "ride_step env c2 ver o_id dir b ride = Inr b'"
      and ab: "blank_state a' = blank_state b'"
      by (cases "ride_step env c2 ver o_id dir b ride") auto
    from Cons.IH [OF ab] Inr b' show ?thesis by simp
  qed
qed

lemma entry_ms_blank [simp]: "entry_ms env (blank_minutes e) = entry_ms env e"
  by (simp add: entry_ms_def blank_minutes_def)

lemma insert_entry_blank:
  "map blank_minutes (insert_entry env e xs)
     = insert_entry env (blank_minutes e) (map blank_minutes xs)"
  by (induction xs) simp_all

lemma insertion_sort_blank:
  "map blank_minutes (insertion_sort env xs) = insertion_sort env (map blank_minutes xs)"
  by (induction xs) (simp_all add: insertion_sort_def insert_entry_blank)

lemma stamps_blank: "map (entry_ms env) (map blank_minutes xs) = map (entry_ms env) xs"
  by simp

lemma engine_pick_blank:
  "map blank_minutes (map (\<lambda>i. xs ! i) (filter (\<lambda>i. i < length xs) ns))
     = map (\<lambda>i. map blank_minutes xs ! i) (filter (\<lambda>i. i < length (map blank_minutes xs)) ns)"
  by (induction ns) simp_all

lemma js_sort_blank: "map blank_minutes (js_sort env xs) = js_sort env (map blank_minutes xs)"
  unfolding js_sort_def stamps_blank
  by (simp only: insertion_sort_blank engine_pick_blank if_distrib [of "map blank_minutes"])

lemma collect_buckets_blank:
  "map_sum id blank_state (collect_buckets env c1 ver json originStopId)
     = map_sum id blank_state (collect_buckets env c2 ver json originStopId)"
  using rides_loop_blank [of init_state init_state env c1 ver _ _ _ c2]
  by (auto simp: collect_buckets_def bindE_def split: sum.splits)


lemma ride_step_reads:
  assumes "ride_step env clock ver o_id dir st ride = Inr st'"
  shows "reads st' = reads st \<or> reads st' = Suc (reads st)"
proof -
  from ride_step_Inr [OF assms] show ?thesis
  proof
    assume "st' = st"
    then show ?thesis by simp
  next
    assume "\<exists>routeInfo. considerRide env clock ver o_id st ride routeInfo = Inr st'"
    then obtain routeInfo where "considerRide env clock ver o_id st ride routeInfo = Inr st'"
      by blast
    from considerRide_Inr [OF this] show ?thesis
      by (auto dest: bucket_push_n_entries)
  qed
qed

lemma considerRide_clock_cong:
  "c1 (reads st) = c2 (reads st) \<Longrightarrow>
     considerRide env c1 ver o_id st ride = considerRide env c2 ver o_id st ride"
  by (rule ext) (simp add: considerRide_def)

lemma ride_step_clock_cong:
  assumes "c1 (reads st) = c2 (reads st)"
  shows "ride_step env c1 ver o_id dir st ride = ride_step env c2 ver o_id dir st ride"
proof -
  have "considerRide env c1 ver o_id st ride = considerRide env c2 ver o_id st ride"
    using assms by (rule considerRide_clock_cong)
  then show ?thesis by (simp only: ride_step_def)
qed

lemma rides_loop_clock_cong:
  assumes "\<forall>n. reads st \<le> n \<and> n < reads st + length rides \<longrightarrow> c1 n = c2 n"
  shows "rides_loop env c1 ver o_id dir st rides = rides_loop env c2 ver o_id dir st rides"
  using assms
proof (induction rides arbitrary: st)
  case Nil
  then show ?case by simp
next
  case (Cons ride rides)
  from Cons.prems have "c1 (reads st) = c2 (reads st)" by simp
  then have step: "ride_step env c1 ver o_id dir st ride = ride_step env c2 ver o_id dir st ride"
    by (rule ride_step_clock_cong)
  show ?case
  proof (cases "ride_step env c2 ver o_id dir st ride")
    case (Inl err)
    with step show ?thesis by simp
  next
    case (Inr st')
    from ride_step_reads [OF Inr] Cons.prems
    have "\<forall>n. reads st' \<le> n \<and> n < reads st' + length rides \<longrightarrow> c1 n = c2 n"
      by auto
    from Cons.IH [OF this] step Inr show ?thesis by simp
  qed
qed

lemma collect_buckets_clock_cong:
  assumes "\<forall>n<n_rides json. c1 n = c2 n"
  shows "collect_buckets env c1 ver json originStopId = collect_buckets env c2 ver json originStopId"
proof (cases "iterate (js_or (fld json ''rides'') (Arr []))")
  case (Inl err)
  then show ?thesis by (simp add: collect_buckets_def bindE_def split: sum.splits)
next
  case (Inr rides)
  with assms have "\<forall>n. reads init_state \<le> n \<and> n < reads init_state + length rides \<longrightarrow> c1 n = c2 n"
    by (simp add: n_rides_def init_state_def)
  from rides_loop_clock_cong [OF this] Inr show ?thesis
    by (simp add: collect_buckets_def bindE_def split: sum.splits)
qed


text \<open>
  Claim C8. Two runs on the same document, origin identifier and label give the same
  result up to \<^verbatim>\<open>inMinutes\<close>, whatever their clocks read: they throw together, and
  otherwise their results are equal once \<^verbatim>\<open>inMinutes\<close> is blanked. If their clocks
  agree on as many readings as the document has rides, which is all a run can make, the
  results are identical. (The future-trip filter is applied by the orchestrator, after
  the normalizer.) This holds of both revisions.
\<close>

theorem clock_only_affects_minutes:
  "map_sum id blank_result
     (parseTripShotCommutePlanForOrigin env clock1 ver json originStopId originLabel)
   = map_sum id blank_result
     (parseTripShotCommutePlanForOrigin env clock2 ver json originStopId originLabel) \<and>
   ((\<forall>n<n_rides json. clock1 n = clock2 n) \<longrightarrow>
      parseTripShotCommutePlanForOrigin env clock1 ver json originStopId originLabel
      = parseTripShotCommutePlanForOrigin env clock2 ver json originStopId originLabel)"
proof
  let ?b1 = "collect_buckets env clock1 ver json originStopId"
  let ?b2 = "collect_buckets env clock2 ver json originStopId"
  have eq: "map_sum id blank_state ?b1 = map_sum id blank_state ?b2"
    by (rule collect_buckets_blank)
  show "map_sum id blank_result
     (parseTripShotCommutePlanForOrigin env clock1 ver json originStopId originLabel)
   = map_sum id blank_result
     (parseTripShotCommutePlanForOrigin env clock2 ver json originStopId originLabel)"
  proof (cases ?b1)
    case (Inl err)
    with eq obtain err' where "?b2 = Inl err'" by (cases ?b2) auto
    with Inl show ?thesis
      by (simp add: parseTripShotCommutePlanForOrigin_def error_unique)
  next
    case (Inr a)
    with eq obtain b where b: "?b2 = Inr b" and ab: "blank_state a = blank_state b"
      by (cases ?b2) auto
    from ab have
      "js_sort env (map blank_minutes (bk_green a)) = js_sort env (map blank_minutes (bk_green b))"
      "js_sort env (map blank_minutes (bk_red a)) = js_sort env (map blank_minutes (bk_red b))"
      "js_sort env (map blank_minutes (bk_blue a)) = js_sort env (map blank_minutes (bk_blue b))"
      by (simp_all add: blank_state_eq_iff)
    then have
      "map blank_minutes (take 3 (js_sort env (bk_green a)))
         = map blank_minutes (take 3 (js_sort env (bk_green b)))"
      "map blank_minutes (take 3 (js_sort env (bk_red a)))
         = map blank_minutes (take 3 (js_sort env (bk_red b)))"
      "map blank_minutes (take 3 (js_sort env (bk_blue a)))
         = map blank_minutes (take 3 (js_sort env (bk_blue b)))"
      by (simp_all add: take_map [symmetric] js_sort_blank)
    with Inr b show ?thesis
      by (simp add: parseTripShotCommutePlanForOrigin_def blank_result_def)
  qed
next
  show "(\<forall>n<n_rides json. clock1 n = clock2 n) \<longrightarrow>
      parseTripShotCommutePlanForOrigin env clock1 ver json originStopId originLabel
      = parseTripShotCommutePlanForOrigin env clock2 ver json originStopId originLabel"
  proof
    assume "\<forall>n<n_rides json. clock1 n = clock2 n"
    then have "collect_buckets env clock1 ver json originStopId
        = collect_buckets env clock2 ver json originStopId"
      by (rule collect_buckets_clock_cong)
    then show "parseTripShotCommutePlanForOrigin env clock1 ver json originStopId originLabel
      = parseTripShotCommutePlanForOrigin env clock2 ver json originStopId originLabel"
      by (simp add: parseTripShotCommutePlanForOrigin_def)
  qed
qed


text \<open>
  The sample document has one ride; a clock that drifts after its first reading gives
  the same result.
\<close>

theorem clock_only_affects_minutes_witness:
  "n_rides sample_doc = 1 \<and>
   parseTripShotCommutePlanForOrigin sample_env sample_clock V15 sample_doc EC_S_STOP_ID ''EC S''
     = Inr sample_result \<and>
   parseTripShotCommutePlanForOrigin sample_env sample_clock_drift V15 sample_doc EC_S_STOP_ID ''EC S''
     = Inr sample_result"
proof -
  have n: "n_rides sample_doc = 1"
    by (simp add: n_rides_def sample_doc_def js_or_def)
  have a: "parseTripShotCommutePlanForOrigin sample_env sample_clock V15 sample_doc
      EC_S_STOP_ID ''EC S'' = Inr sample_result"
    by code_simp
  have c: "\<forall>n<n_rides sample_doc. sample_clock n = sample_clock_drift n"
    by (simp add: n sample_clock_def sample_clock_drift_def)
  from clock_only_affects_minutes [of sample_env sample_clock V15 sample_doc EC_S_STOP_ID
      "''EC S''" sample_clock_drift] c a n
  show ?thesis by simp
qed


section \<open>Sorted and capped buckets\<close>




lemma set_insert_entry [simp]: "set (insert_entry env e xs) = insert e (set xs)"
  by (induction xs) auto

lemma set_insertion_sort [simp]: "set (insertion_sort env xs) = set xs"
  by (induction xs) (simp_all add: insertion_sort_def)

lemma set_js_sort: "set (js_sort env xs) \<subseteq> set xs"
  by (auto simp: js_sort_def)

lemma length_insert_entry [simp]: "length (insert_entry env e xs) = Suc (length xs)"
  by (induction xs) auto

lemma length_insertion_sort [simp]: "length (insertion_sort env xs) = length xs"
  by (induction xs) (simp_all add: insertion_sort_def)

lemma not_later_valid:
  "valid_stamp env a \<Longrightarrow> valid_stamp env b \<Longrightarrow>
     not_later env a b \<longleftrightarrow> the (entry_ms env a) \<le> the (entry_ms env b)"
  by (auto simp: not_later_def valid_stamp_def)

lemma compare_ms_valid:
  "valid_stamp env a \<Longrightarrow> valid_stamp env b \<Longrightarrow>
     compare_ms (entry_ms env a) (entry_ms env b) \<le> 0 \<longleftrightarrow> not_later env a b"
  by (auto simp: not_later_def valid_stamp_def)

lemma insert_entry_ascending:
  assumes "valid_stamp env e" and "list_all (valid_stamp env) xs"
    and "sorted_wrt (not_later env) xs"
  shows "sorted_wrt (not_later env) (insert_entry env e xs)"
  using assms
proof (induction xs)
  case Nil
  then show ?case by simp
next
  case (Cons x xs)
  then have vx: "valid_stamp env x" and vxs: "list_all (valid_stamp env) xs"
    and sx: "\<forall>y\<in>set xs. not_later env x y" and sxs: "sorted_wrt (not_later env) xs"
    by simp_all
  show ?case
  proof (cases "compare_ms (entry_ms env e) (entry_ms env x) \<le> 0")
    case True
    with Cons.prems(1) vx have ex: "not_later env e x" by (simp add: compare_ms_valid)
    have "not_later env e y" if "y \<in> set xs" for y
    proof -
      from that vxs have vy: "valid_stamp env y" by (simp add: list_all_iff)
      from that sx have "not_later env x y" by blast
      with ex Cons.prems(1) vx vy show ?thesis by (simp add: not_later_valid)
    qed
    with True ex sx sxs show ?thesis by simp
  next
    case False
    with Cons.prems(1) vx have "\<not> not_later env e x" by (simp add: compare_ms_valid)
    with Cons.prems(1) vx have "not_later env x e" by (auto simp: not_later_valid)
    with False sx Cons.IH [OF Cons.prems(1) vxs sxs] show ?thesis by simp
  qed
qed

lemma insertion_sort_ascending:
  "list_all (valid_stamp env) xs \<Longrightarrow> sorted_wrt (not_later env) (insertion_sort env xs)"
proof (induction xs)
  case Nil
  then show ?case by (simp add: insertion_sort_def)
next
  case (Cons x xs)
  then have vx: "valid_stamp env x" and v: "list_all (valid_stamp env) xs" by simp_all
  from v have v': "list_all (valid_stamp env) (insertion_sort env xs)"
    by (simp add: list_all_iff)
  from Cons.IH [OF v] have s: "sorted_wrt (not_later env) (insertion_sort env xs)" .
  from vx v' s have "sorted_wrt (not_later env) (insert_entry env x (insertion_sort env xs))"
    by (rule insert_entry_ascending)
  then show ?case by (simp add: insertion_sort_def)
qed

lemma valid_consistent:
  "list_all (valid_stamp env) xs \<Longrightarrow> consistent_stamps (map (entry_ms env) xs)"
  by (simp add: consistent_stamps_def list_all_iff valid_stamp_def)

lemma js_sort_ascending:
  "list_all (valid_stamp env) xs \<Longrightarrow> sorted_wrt (not_later env) (js_sort env xs)"
  by (simp add: js_sort_def valid_consistent insertion_sort_ascending)

lemma sorted_wrt_take3: "sorted_wrt P xs \<Longrightarrow> sorted_wrt P (take n xs)"
  by (rule sorted_wrt_take)


subsection \<open>The entries of the buckets\<close>

lemma considerRide_entry_entry_ok:
  assumes "considerRide_entry env now ver o_id ride routeInfo = Inr (Some (key, e))"
  shows "entry_ok env e"
  using considerRide_entry_Some [OF assms] by (auto simp: entry_ok_def)

lemma bucket_push_buckets_ok:
  "bucket_push key e st = Inr st' \<Longrightarrow> entry_ok env e \<Longrightarrow> buckets_ok env st \<Longrightarrow>
     buckets_ok env st'"
  by (auto simp: bucket_push_def buckets_ok_def split: if_splits)

lemma ride_step_buckets_ok:
  assumes "ride_step env clock ver o_id dir st ride = Inr st'" and "buckets_ok env st"
  shows "buckets_ok env st'"
proof -
  from ride_step_Inr [OF assms(1)] show ?thesis
  proof
    assume "st' = st"
    with assms(2) show ?thesis by simp
  next
    assume "\<exists>routeInfo. considerRide env clock ver o_id st ride routeInfo = Inr st'"
    then obtain routeInfo where "considerRide env clock ver o_id st ride routeInfo = Inr st'"
      by blast
    from considerRide_Inr [OF this] show ?thesis
    proof
      assume "considerRide_entry env (clock (reads st)) ver o_id ride routeInfo = Inr None \<and> st' = st"
      with assms(2) show ?thesis by simp
    next
      assume "\<exists>key e. considerRide_entry env (clock (reads st)) ver o_id ride routeInfo
                     = Inr (Some (key, e)) \<and>
                   bucket_push key e (st\<lparr>reads := Suc (reads st)\<rparr>) = Inr st'"
      then obtain key e where
        e: "considerRide_entry env (clock (reads st)) ver o_id ride routeInfo = Inr (Some (key, e))"
        and p: "bucket_push key e (st\<lparr>reads := Suc (reads st)\<rparr>) = Inr st'"
        by blast
      from assms(2) have "buckets_ok env (st\<lparr>reads := Suc (reads st)\<rparr>)"
        by (simp add: buckets_ok_def)
      from bucket_push_buckets_ok [OF p considerRide_entry_entry_ok [OF e] this]
      show ?thesis .
    qed
  qed
qed

lemma rides_loop_buckets_ok:
  "rides_loop env clock ver o_id dir st rides = Inr st' \<Longrightarrow> buckets_ok env st \<Longrightarrow>
     buckets_ok env st'"
proof (induction rides arbitrary: st)
  case Nil
  then show ?case by simp
next
  case (Cons ride rides)
  from Cons.prems(1) obtain st1 where
    s: "ride_step env clock ver o_id dir st ride = Inr st1"
    and r: "rides_loop env clock ver o_id dir st1 rides = Inr st'"
    by (auto simp: bindE_Inr_iff)
  from Cons.IH [OF r ride_step_buckets_ok [OF s Cons.prems(2)]] show ?case .
qed

lemma collect_buckets_ok:
  assumes "collect_buckets env clock ver json originStopId = Inr st"
  shows "buckets_ok env st"
proof -
  have "buckets_ok env init_state" by (simp add: buckets_ok_def init_state_def)
  with assms rides_loop_buckets_ok show ?thesis
    by (auto simp: collect_buckets_def bindE_Inr_iff)
qed

text \<open>
  Every entry of a result has a usable raw timestamp that \<^verbatim>\<open>new Date\<close> accepts: the
  comparator of the sort does not throw, and the results are lists the future-trip
  filter is proved for.
\<close>

lemma normalizer_entries_ok:
  assumes "parseTripShotCommutePlanForOrigin env clock ver json originStopId originLabel = Inr r"
  shows "list_all (entry_ok env) (green r) \<and> list_all (entry_ok env) (red r) \<and>
         list_all (entry_ok env) (blue r)"
proof -
  from assms obtain b where b: "collect_buckets env clock ver json originStopId = Inr b"
    and r: "r = \<lparr>stopName = originLabel,
                 green = take 3 (js_sort env (bk_green b)),
                 red = take 3 (js_sort env (bk_red b)),
                 blue = take 3 (js_sort env (bk_blue b))\<rparr>"
    by (auto simp: parseTripShotCommutePlanForOrigin_def bindE_Inr_iff)
  have "list_all (entry_ok env) (take 3 (js_sort env xs))" if "list_all (entry_ok env) xs" for xs
    using that set_js_sort [of env xs] by (auto simp: list_all_iff dest: in_set_takeD)
  with collect_buckets_ok [OF b] r show ?thesis
    by (simp add: buckets_ok_def)
qed


text \<open>
  Claim C4, as the code has it. Each bucket of the result holds at most three entries.
  When every entry collected for a bucket has a valid date as its raw timestamp, the
  bucket is in ascending order of those instants, and entries of the same instant may
  follow each other: entries are not deduplicated, so the order is not strict. (With a
  timestamp that is no valid date the comparator is not an order, and nothing is
  claimed.) This holds of both revisions.
\<close>

theorem buckets_sorted_and_capped:
  assumes "parseTripShotCommutePlanForOrigin env clock ver json originStopId originLabel = Inr r"
  shows "length (green r) \<le> 3 \<and> length (red r) \<le> 3 \<and> length (blue r) \<le> 3 \<and>
         (\<exists>b. collect_buckets env clock ver json originStopId = Inr b \<and>
            (list_all (valid_stamp env) (bk_green b) \<longrightarrow> sorted_wrt (not_later env) (green r)) \<and>
            (list_all (valid_stamp env) (bk_red b) \<longrightarrow> sorted_wrt (not_later env) (red r)) \<and>
            (list_all (valid_stamp env) (bk_blue b) \<longrightarrow> sorted_wrt (not_later env) (blue r)))"
proof -
  from assms obtain b where b: "collect_buckets env clock ver json originStopId = Inr b"
    and r: "r = \<lparr>stopName = originLabel,
                 green = take 3 (js_sort env (bk_green b)),
                 red = take 3 (js_sort env (bk_red b)),
                 blue = take 3 (js_sort env (bk_blue b))\<rparr>"
    by (auto simp: parseTripShotCommutePlanForOrigin_def bindE_Inr_iff)
  have "sorted_wrt (not_later env) (take 3 (js_sort env xs))"
    if "list_all (valid_stamp env) xs" for xs
    using js_sort_ascending [OF that] by (rule sorted_wrt_take)
  with b r show ?thesis by simp
qed


text \<open>
  The claim as stated asks for a strictly ascending order. The sample ride twice gives
  two entries of the same instant in the green bucket.
\<close>

theorem buckets_strictly_sorted_counterexample:
  "parseTripShotCommutePlanForOrigin sample_env sample_clock V15 sample_doc_twin EC_S_STOP_ID
     ''EC S'' = Inr sample_result_twin \<and>
   \<not> sorted_wrt (strictly_earlier sample_env) (green sample_result_twin)"
proof -
  have a: "parseTripShotCommutePlanForOrigin sample_env sample_clock V15 sample_doc_twin
      EC_S_STOP_ID ''EC S'' = Inr sample_result_twin"
    by code_simp
  have "\<not> strictly_earlier sample_env sample_entry sample_entry"
    by (simp add: strictly_earlier_def ms_less_iff)
  then have "\<not> sorted_wrt (strictly_earlier sample_env) (green sample_result_twin)"
    by (simp add: sample_result_twin_def)
  with a show ?thesis by simp
qed


text \<open>The same result is in ascending order and within the cap.\<close>

theorem buckets_sorted_and_capped_witness:
  "parseTripShotCommutePlanForOrigin sample_env sample_clock V15 sample_doc_twin EC_S_STOP_ID
     ''EC S'' = Inr sample_result_twin \<and>
   length (green sample_result_twin) \<le> 3 \<and>
   sorted_wrt (not_later sample_env) (green sample_result_twin)"
proof -
  have a: "parseTripShotCommutePlanForOrigin sample_env sample_clock V15 sample_doc_twin
      EC_S_STOP_ID ''EC S'' = Inr sample_result_twin"
    by code_simp
  have b: "collect_buckets sample_env sample_clock V15 sample_doc_twin EC_S_STOP_ID
      = Inr \<lparr>bk_green = [sample_entry, sample_entry], bk_red = [], bk_blue = [], reads = 2\<rparr>"
    by code_simp
  have v: "valid_stamp sample_env sample_entry"
    by code_simp
  from buckets_sorted_and_capped [OF a] b v a show ?thesis
    by simp
qed


section \<open>The display colour\<close>

text \<open>
  In \<^verbatim>\<open>src/server.js\<close> the display colour is the colour label of the route when there
  is one, and the bucket key with its first letter in upper case otherwise. In
  \<^verbatim>\<open>src/unnamed/part_000\<close> it is the label when there is one, and the key \<^verbatim>\<open>blue\<close> as
  it is otherwise.
\<close>

lemma capitalize_known:
  "key \<in> set [''green'', ''red'', ''blue''] \<Longrightarrow>
     capitalize key = Inr (upper_char (hd key) # tl key)"
  by auto

lemma color_key_v14: "color_key env V14 routeInfo = Inr key \<Longrightarrow> key \<in> set [''green'', ''red'', ''blue'']"
  by (auto simp: color_key_def bindE_Inr_iff split: if_splits)

lemma display_color_v14:
  assumes "considerRide_entry env now V14 originIdLower ride routeInfo = Inr (Some (key, e))"
  shows "key \<in> set [''green'', ''red'', ''blue''] \<and>
         color e = (if truthy (rfld routeInfo ''colorLabel'') then rfld routeInfo ''colorLabel''
                    else Str (upper_char (hd key) # tl key))"
proof -
  from considerRide_entry_Some [OF assms] have k: "color_key env V14 routeInfo = Inr key"
    and d: "display_color V14 routeInfo key = Inr (color e)"
    by auto
  from color_key_v14 [OF k] have key: "key \<in> set [''green'', ''red'', ''blue'']" .
  from d capitalize_known [OF key] key show ?thesis
    by (auto simp: display_color_def split: if_splits)
qed

lemma display_color_v15:
  assumes "considerRide_entry env now V15 originIdLower ride routeInfo = Inr (Some (key, e))"
  shows "color e = (if truthy (rfld routeInfo ''colorLabel'') then rfld routeInfo ''colorLabel''
                    else Str ''blue'')"
proof -
  from considerRide_entry_Some [OF assms] have k: "color_key env V15 routeInfo = Inr key"
    and d: "display_color V15 routeInfo key = Inr (color e)"
    by auto
  then show ?thesis
    by (auto simp: display_color_def color_key_def split: if_splits)
qed


text \<open>
  Claim C5 at a route whose name has no colour, \<^verbatim>\<open>Crimson Express\<close>: the entry lands
  in the blue bucket in both revisions. \<^verbatim>\<open>src/server.js\<close> gives it the display colour
  \<^verbatim>\<open>Blue\<close>, as the claim says; \<^verbatim>\<open>src/unnamed/part_000\<close> gives it \<^verbatim>\<open>blue\<close>.
\<close>

theorem display_color_not_capitalized_in_v15:
  "parseTripShotCommutePlanForOrigin sample_env sample_clock V15 sample_doc_crimson EC_S_STOP_ID
     ''EC S''
   = Inr \<lparr>stopName = ''EC S'', green = [], red = [],
          blue = [sample_entry_crimson\<lparr>color := Str ''blue''\<rparr>]\<rparr> \<and>
   parseTripShotCommutePlanForOrigin sample_env sample_clock V14 sample_doc_crimson EC_S_STOP_ID
     ''EC S''
   = Inr \<lparr>stopName = ''EC S'', green = [], red = [], blue = [sample_entry_crimson]\<rparr>"
  by code_simp


section \<open>Documents of the expected shape\<close>


lemma to_str_scalar: "scalar v \<Longrightarrow> \<exists>s. to_str env v = Inr s"
  by (cases v) simp_all

lemma new_date_scalar: "scalar v \<Longrightarrow> \<exists>d. new_date env v = Inr d"
  by (cases v) simp_all

lemma textual_scalar: "textual v \<Longrightarrow> scalar v"
  by (cases v) simp_all

lemma js_or_scalar: "scalar a \<Longrightarrow> scalar b \<Longrightarrow> scalar (js_or a b)"
  by (simp add: js_or_def)

lemma js_or_textual_Str: "textual v \<Longrightarrow> \<exists>s. js_or v (Str d) = Str s"
  by (cases v) (simp_all add: js_or_def)

lemma js_or_textual: "textual a \<Longrightarrow> textual b \<Longrightarrow> textual (js_or a b)"
  by (simp add: js_or_def)

lemma lower_of_textual: "textual v \<Longrightarrow> \<exists>s. lower_of (js_or v (Str [])) = Inr s"
  using js_or_textual_Str [of v "[]"] by auto

lemma regex_test_ci_scalar: "scalar v \<Longrightarrow> \<exists>b. regex_test_ci env p v = Inr b"
  using to_str_scalar [of v env] by (auto simp: regex_test_ci_def)

lemma test_either_scalar: "scalar a \<Longrightarrow> scalar b \<Longrightarrow> \<exists>r. test_either env p a b = Inr r"
  using regex_test_ci_scalar [of a env p] regex_test_ci_scalar [of b env p]
  by (auto simp: test_either_def)

lemma infer_color_ok:
  assumes "scalar a" and "scalar b"
  shows "\<exists>c. infer_color env a b = Inr c \<and> c \<in> set color_labels"
proof -
  from test_either_scalar [OF assms] obtain g r bl where
    "test_either env ''green'' a b = Inr g" "test_either env ''red'' a b = Inr r"
    "test_either env ''blue'' a b = Inr bl"
    by metis
  then show ?thesis by (simp add: infer_color_def color_labels_def)
qed

lemma dir_wf_empty: "dir_wf empty_dir"
  by (simp add: dir_wf_def empty_dir_def)

lemma dir_wf_set: "dir_wf dir \<Longrightarrow> route_record info \<Longrightarrow> dir_wf (dir_set dir k info)"
  by (auto simp: dir_wf_def dir_set_def split: option.splits)

lemma add_route_ok:
  assumes "route_shaped r" and "dir_wf dir"
  shows "\<exists>dir'. add_route env dir r = Inr dir' \<and> dir_wf dir'"
proof (cases "truthy (fld r ''routeId'')")
  case False
  with assms show ?thesis by (auto simp: add_route_def get_def route_shaped_def)
next
  case True
  let ?name = "js_or (js_or (fld r ''name'') (fld r ''shortName'')) (Str ''Shuttle'')"
  let ?short = "js_or (fld r ''shortName'') ?name"
  from assms(1) have tn: "textual (fld r ''name'')" and ts: "textual (fld r ''shortName'')"
    and sid: "scalar (fld r ''routeId'')" and nn: "\<not> nullish r"
    by (simp_all add: route_shaped_def)
  from tn ts have "textual (js_or (fld r ''name'') (fld r ''shortName''))"
    by (rule js_or_textual)
  from js_or_textual_Str [OF this] obtain n where n: "?name = Str n"
    by blast
  from js_or_textual_Str [OF ts, of n] n obtain sh where sh: "?short = Str sh"
    by auto
  from infer_color_ok [of ?name ?short env] n sh obtain c where
    c: "infer_color env ?name ?short = Inr c" "c \<in> set color_labels"
    by auto
  from to_str_scalar [OF sid] obtain key where key: "to_str env (fld r ''routeId'') = Inr key"
    by blast
  have "route_record (Obj [(''id'', fld r ''routeId''), (''name'', ?name), (''shortName'', ?short),
                           (''colorLabel'', Str c)])"
    using n sh sid c(2) by (simp add: route_record_def)
  from dir_wf_set [OF assms(2) this, of key] True nn c key show ?thesis
    by (simp add: add_route_def get_def Let_def)
qed

lemma build_routes_ok:
  "list_all route_shaped rs \<Longrightarrow> dir_wf dir \<Longrightarrow>
     \<exists>dir'. build_routes env dir rs = Inr dir' \<and> dir_wf dir'"
proof (induction rs arbitrary: dir)
  case Nil
  then show ?case by simp
next
  case (Cons r rs)
  then have "route_shaped r" and rest: "list_all route_shaped rs" by simp_all
  from add_route_ok [OF this(1) Cons.prems(2)] obtain d where
    d: "add_route env dir r = Inr d" "dir_wf d"
    by blast
  from Cons.IH [OF rest d(2)] d(1) show ?case by simp
qed



lemma info_ok_record: "route_record v \<Longrightarrow> info_ok (Val v)"
  by (auto simp: route_record_def info_ok_def)

lemma info_ok_scalar: "scalar v \<Longrightarrow> info_ok (Val v)"
  by (cases v) (simp_all add: info_ok_def)

lemma info_ok_object_prototype: "info_ok (object_prototype_get k)"
  by (simp add: object_prototype_get_def info_ok_def)

lemma info_ok_ObjectPrototype: "info_ok ObjectPrototype"
  by (simp add: info_ok_def)

lemma route_record_field:
  "route_record (Obj kvs) \<Longrightarrow> map_of kvs k = Some v \<Longrightarrow> scalar v"
  by (auto simp: route_record_def split: if_splits)

lemma dir_get_ok:
  assumes "dir_wf dir"
  shows "info_ok (dir_get dir k)"
proof (cases "map_of (own_props dir) k")
  case (Some v)
  then have "(k, v) \<in> set (own_props dir)" by (rule map_of_SomeD)
  with assms have "route_record v" by (auto simp: dir_wf_def)
  with Some show ?thesis by (simp add: dir_get_def info_ok_record)
next
  case None
  show ?thesis
  proof (cases "proto_of dir")
    case n: None
    with None show ?thesis
      by (simp add: dir_get_def info_ok_object_prototype info_ok_ObjectPrototype)
  next
    case (Some info)
    with assms have rr: "route_record info" by (simp add: dir_wf_def)
    then obtain kvs where kvs: "info = Obj kvs" by (auto simp: route_record_def)
    show ?thesis
    proof (cases "map_of kvs k")
      case n: None
      with None Some kvs rr show ?thesis
        by (simp add: dir_get_def info_ok_object_prototype info_ok_record)
    next
      case s: (Some v)
      from route_record_field [OF rr [unfolded kvs] s] have "scalar v" .
      with None Some kvs s show ?thesis
        by (simp add: dir_get_def info_ok_scalar)
    qed
  qed
qed

lemma isWalkingRide_ok:
  assumes "ride_shaped ride"
  shows "\<exists>b. isWalkingRide env ride = Inr b"
proof -
  from assms have "scalar (js_or (js_or (fld ride ''mode'') (fld ride ''type'')) (Str []))"
    by (simp add: ride_shaped_def js_or_scalar)
  from to_str_scalar [OF this, of env] obtain s where
    "to_str env (js_or (js_or (fld ride ''mode'') (fld ride ''type'')) (Str [])) = Inr s"
    by blast
  with assms show ?thesis
    by (simp add: isWalkingRide_def get_def ride_shaped_def)
qed

lemma resolve_route_ok:
  assumes "ride_shaped ride" and "dir_wf dir"
  shows "\<exists>routeInfo. resolve_route env dir ride = Inr routeInfo \<and> info_ok routeInfo"
proof -
  from assms(1) have "scalar (fld ride ''routeId'')" "scalar (fld ride ''routeServiceId'')"
    by (simp_all add: ride_shaped_def)
  with to_str_scalar obtain k1 k2 where
    k: "to_str env (fld ride ''routeId'') = Inr k1"
       "to_str env (fld ride ''routeServiceId'') = Inr k2"
    by metis
  have "info_ok (Val (Obj [(''id'', js_or (fld ride ''routeId'') (fld ride ''routeServiceId'')),
                    (''name'', Str ''Shuttle''), (''shortName'', Str ''Shuttle''),
                    (''colorLabel'', Str [])]))"
    by (simp add: info_ok_def color_labels_def)
  with k dir_get_ok [OF assms(2)] show ?thesis
    by (simp add: resolve_route_def)
qed

lemma stop_sid_ok: "record_shaped r \<Longrightarrow> \<exists>s. stop_sid r = Inr s"
  using lower_of_textual [of "fld r ''stopId''"]
  by (auto simp: stop_sid_def get_def record_shaped_def)

lemma scan_step_ok:
  assumes "status_shaped w" and "node_ok (fst acc)" and "node_ok (snd acc)"
  shows "\<exists>acc'. scan_step o_id acc w = Inr acc' \<and> node_ok (fst acc') \<and> node_ok (snd acc')"
proof (cases "truthy w")
  case False
  with assms show ?thesis by (simp add: scan_step_def)
next
  case True
  with assms(1) have r: "record_shaped (unwrap w)" by (simp add: status_shaped_def)
  from stop_sid_ok [OF r] obtain s where "stop_sid (unwrap w) = Inr s" by blast
  with True r assms(2,3) show ?thesis by (simp add: scan_step_def node_ok_def)
qed

lemma scan_statuses_ok:
  "list_all status_shaped ws \<Longrightarrow> node_ok (fst acc) \<Longrightarrow> node_ok (snd acc) \<Longrightarrow>
     \<exists>nodes. scan_statuses o_id acc ws = Inr nodes \<and> node_ok (fst nodes) \<and> node_ok (snd nodes)"
proof (induction ws arbitrary: acc)
  case Nil
  then show ?case by simp
next
  case (Cons w ws)
  then have "status_shaped w" and rest: "list_all status_shaped ws" by simp_all
  from scan_step_ok [OF this(1) Cons.prems(2,3)] obtain acc' where
    a: "scan_step o_id acc w = Inr acc'" "node_ok (fst acc')" "node_ok (snd acc')"
    by blast
  from Cons.IH [OF rest a(2,3)] a(1) show ?case by simp
qed

lemma ride_statuses_ok:
  assumes "ride_shaped ride"
  shows "\<exists>ws. ride_statuses ride = Inr ws \<and> list_all status_shaped ws"
proof (cases "fld ride ''stopStatus''")
  case (Arr xs)
  with assms show ?thesis by (simp add: ride_statuses_def ride_shaped_def js_or_def)
qed (use assms in \<open>auto simp: ride_statuses_def ride_shaped_def js_or_def split: if_splits\<close>)

lemma excluded_route_ok: "info_ok routeInfo \<Longrightarrow> \<exists>b. excluded_route ver routeInfo = Inr b"
  using lower_of_textual [of "rfld routeInfo ''name''"]
    lower_of_textual [of "rfld routeInfo ''shortName''"]
  by (auto simp: excluded_route_def info_ok_def)

lemma lower_color_label:
  "c \<in> set color_labels \<Longrightarrow> c \<noteq> [] \<Longrightarrow> toLowerCase c \<in> set [''green'', ''red'', ''blue'']"
  by (auto simp: color_labels_def toLowerCase_def lower_char_def)

lemma color_key_ok:
  assumes "info_ok routeInfo"
  shows "\<exists>key. color_key env ver routeInfo = Inr key \<and> key \<in> set [''green'', ''red'', ''blue'']"
proof (cases "truthy (rfld routeInfo ''colorLabel'')")
  case True
  with assms obtain c where c: "rfld routeInfo ''colorLabel'' = Str c" "c \<in> set color_labels"
    by (auto simp: info_ok_def)
  with True have "c \<noteq> []" by simp
  from lower_color_label [OF c(2) this] c(1) True show ?thesis
    by (cases ver) (simp_all add: color_key_def)
next
  case False
  from assms have "scalar (rfld routeInfo ''name'')" "scalar (rfld routeInfo ''shortName'')"
    by (simp_all add: info_ok_def textual_scalar)
  from test_either_scalar [OF this] obtain g r b where
    "test_either env ''green'' (rfld routeInfo ''name'') (rfld routeInfo ''shortName'') = Inr g"
    "test_either env ''red'' (rfld routeInfo ''name'') (rfld routeInfo ''shortName'') = Inr r"
    "test_either env ''blue'' (rfld routeInfo ''name'') (rfld routeInfo ''shortName'') = Inr b"
    by metis
  with False show ?thesis
    by (cases ver) (simp_all add: color_key_def)
qed

lemma display_color_ok:
  "key \<in> set [''green'', ''red'', ''blue''] \<Longrightarrow> \<exists>c. display_color ver routeInfo key = Inr c"
  by (cases ver) (auto simp: display_color_def)

lemma record_times_scalar:
  assumes "record_shaped n"
  shows "scalar (liveTime_of n)" and "scalar (scheduledTime_of n)" and "scalar (ninetySixTime_of n)"
  using assms
  by (simp_all add: record_shaped_def live_fields_def sched_fields_def liveTime_of_def
      scheduledTime_of_def ninetySixTime_of_def js_or_scalar)

lemma reaches96_of_ok:
  assumes "scalar live" and "node_ok n"
  shows "\<exists>b. reaches96_of env live n = Inr b"
proof (cases "truthy n")
  case False
  then have "reaches96_of env live n = Inr False" by (simp add: reaches96_of_def)
  then show ?thesis by blast
next
  case True
  with assms(2) have "record_shaped n" by (auto simp: node_ok_def)
  from record_times_scalar(3) [OF this] have "scalar (ninetySixTime_of n)" .
  from new_date_scalar [OF this] new_date_scalar [OF assms(1)] obtain a b where
    "new_date env (ninetySixTime_of n) = Inr a" "new_date env live = Inr b"
    by metis
  then show ?thesis by (auto simp: reaches96_of_def)
qed

lemma delayed_of_ok: "scalar sched \<Longrightarrow> \<exists>b. delayed_of env liveDate sched = Inr b"
  using new_date_scalar [of sched env] by (auto simp: delayed_of_def)

lemma formatTime_ok: "scalar v \<Longrightarrow> \<exists>s. formatTime env v = Inr s"
  using new_date_scalar [of v env] by (auto simp: formatTime_def)

lemma minutesFromNow_ok: "scalar v \<Longrightarrow> \<exists>m. minutesFromNow env now v = Inr m"
  using new_date_scalar [of v env] by (auto simp: minutesFromNow_def)



lemma considerRide_entry_ok:
  assumes "ride_shaped ride" and "info_ok routeInfo"
  shows "\<exists>r. considerRide_entry env now ver o_id ride routeInfo = Inr r \<and>
             (\<forall>key e. r = Some (key, e) \<longrightarrow> key \<in> set [''green'', ''red'', ''blue''])"
proof -
  from excluded_route_ok [OF assms(2)] obtain ex where
    ex: "excluded_route ver routeInfo = Inr ex" by blast
  from ride_statuses_ok [OF assms(1)] obtain ws where
    ws: "ride_statuses ride = Inr ws" "list_all status_shaped ws" by blast
  have "node_ok (fst (Null, Null))" "node_ok (snd (Null, Null))"
    by (simp_all add: node_ok_def)
  from scan_statuses_ok [OF ws(2) this] obtain nodes where
    nodes: "scan_statuses o_id (Null, Null) ws = Inr nodes"
      "node_ok (fst nodes)" "node_ok (snd nodes)"
    by blast
  from color_key_ok [OF assms(2)] obtain key where
    key: "color_key env ver routeInfo = Inr key" "key \<in> set [''green'', ''red'', ''blue'']"
    by blast
  from display_color_ok [OF key(2)] obtain col where
    col: "display_color ver routeInfo key = Inr col" by blast
  show ?thesis
  proof (cases "truthy (fst nodes)")
    case False
    with ex ws nodes show ?thesis by (simp add: considerRide_entry_def)
  next
    case True
    with nodes(2) have rs: "record_shaped (fst nodes)" by (auto simp: node_ok_def)
    note sc = record_times_scalar [OF rs]
    from reaches96_of_ok [OF sc(1) nodes(3)] obtain r96 where
      r96: "reaches96_of env (liveTime_of (fst nodes)) (snd nodes) = Inr r96" by blast
    from new_date_scalar [OF sc(1)] obtain d where
      d: "new_date env (liveTime_of (fst nodes)) = Inr d" by blast
    from formatTime_ok [OF sc(1)] obtain tm where
      tm: "formatTime env (liveTime_of (fst nodes)) = Inr tm" by blast
    from minutesFromNow_ok [OF sc(1)] obtain mins where
      mins: "minutesFromNow env now (liveTime_of (fst nodes)) = Inr mins" by blast
    from delayed_of_ok [OF sc(2)] obtain late where
      late: "delayed_of env d (scheduledTime_of (fst nodes)) = Inr late" by blast
    from ex ws nodes key col r96 d tm mins late show ?thesis
      by (simp add: considerRide_entry_def)
  qed
qed

lemma bucket_push_ok:
  "key \<in> set [''green'', ''red'', ''blue''] \<Longrightarrow> \<exists>st'. bucket_push key e st = Inr st'"
  by (auto simp: bucket_push_def)

lemma considerRide_ok:
  assumes "ride_shaped ride" and "info_ok routeInfo"
  shows "\<exists>st'. considerRide env clock ver o_id st ride routeInfo = Inr st'"
proof -
  from considerRide_entry_ok [OF assms] obtain r where
    r: "considerRide_entry env (clock (reads st)) ver o_id ride routeInfo = Inr r"
    and k: "\<forall>key e. r = Some (key, e) \<longrightarrow> key \<in> set [''green'', ''red'', ''blue'']"
    by blast
  show ?thesis
  proof (cases r)
    case None
    with r show ?thesis by (simp add: considerRide_def)
  next
    case (Some p)
    obtain key e where p: "p = (key, e)" by (cases p)
    with Some k have "key \<in> set [''green'', ''red'', ''blue'']" by blast
    from bucket_push_ok [OF this] Some p r show ?thesis
      by (simp add: considerRide_def)
  qed
qed

lemma ride_step_ok:
  assumes "ride_shaped ride" and "dir_wf dir"
  shows "\<exists>st'. ride_step env clock ver o_id dir st ride = Inr st'"
proof -
  from isWalkingRide_ok [OF assms(1)] obtain w where
    w: "isWalkingRide env ride = Inr w" by blast
  from resolve_route_ok [OF assms] obtain routeInfo where
    ri: "resolve_route env dir ride = Inr routeInfo" "info_ok routeInfo" by blast
  from considerRide_ok [OF assms(1) ri(2)] w ri(1) show ?thesis
    by (simp add: ride_step_def)
qed

lemma rides_loop_ok:
  "list_all ride_shaped rides \<Longrightarrow> dir_wf dir \<Longrightarrow>
     \<exists>st'. rides_loop env clock ver o_id dir st rides = Inr st'"
proof (induction rides arbitrary: st)
  case Nil
  then show ?case by simp
next
  case (Cons ride rides)
  then have "ride_shaped ride" and rest: "list_all ride_shaped rides" by simp_all
  from ride_step_ok [OF this(1) Cons.prems(2)] obtain st1 where
    "ride_step env clock ver o_id dir st ride = Inr st1" by blast
  with Cons.IH [OF rest Cons.prems(2), of st1] show ?case by simp
qed

lemma elements_of_iterate:
  "elements_of v = Some xs \<Longrightarrow> iterate (js_or v (Arr [])) = Inr xs"
  by (cases v) (auto simp: js_or_def split: if_splits)


text \<open>
  Claim C3, as the code has it. The normalizer checks no types: it throws a
  \<^verbatim>\<open>TypeError\<close> on fields of other types than it expects. For a document of the expected
  shape it returns normally: the document is not \<^verbatim>\<open>null\<close>; \<^verbatim>\<open>routes\<close>, \<^verbatim>\<open>rides\<close> and
  \<^verbatim>\<open>stopStatus\<close> are arrays or missing; routes and rides are not \<^verbatim>\<open>null\<close>, their
  identifiers, modes and types are scalars and the names of routes are strings or
  missing; and each stop-status entry is falsy or, out of its envelope, a record that is
  not \<^verbatim>\<open>null\<close>, with a string or nothing for its stop identifier and scalars for its
  times. This holds of both revisions, for every environment and clock.
\<close>

theorem well_shaped_document_never_throws:
  assumes "well_shaped json"
  shows "\<exists>r. parseTripShotCommutePlanForOrigin env clock ver json originStopId originLabel = Inr r"
proof -
  from assms obtain routes rides where
    nn: "\<not> nullish json"
    and routes: "elements_of (fld json ''routes'') = Some routes" "list_all route_shaped routes"
    and rides: "elements_of (fld json ''rides'') = Some rides" "list_all ride_shaped rides"
    by (auto simp: well_shaped_def split: option.splits)
  from build_routes_ok [OF routes(2) dir_wf_empty] obtain dir where
    dir: "build_routes env empty_dir routes = Inr dir" "dir_wf dir" by blast
  from rides_loop_ok [OF rides(2) dir(2)] obtain st where
    "rides_loop env clock ver (toLowerCase originStopId) dir init_state rides = Inr st" by blast
  with nn dir(1) elements_of_iterate [OF routes(1)] elements_of_iterate [OF rides(1)]
  show ?thesis
    by (simp add: parseTripShotCommutePlanForOrigin_def collect_buckets_def get_def)
qed


text \<open>The sample document has that shape, and is normalized.\<close>

theorem well_shaped_document_never_throws_witness:
  "well_shaped sample_doc \<and>
   parseTripShotCommutePlanForOrigin sample_env sample_clock V14 sample_doc EC_S_STOP_ID ''EC S''
     = Inr sample_result"
proof -
  have w: "well_shaped sample_doc"
    by code_simp
  have "parseTripShotCommutePlanForOrigin sample_env sample_clock V14 sample_doc EC_S_STOP_ID
      ''EC S'' = Inr sample_result"
    by code_simp
  with well_shaped_document_never_throws [OF w, of sample_env sample_clock V14 EC_S_STOP_ID
      "''EC S''"] w
  show ?thesis by simp
qed


text \<open>
  The claim as stated covers every JSON document. A stop-status record whose stop
  identifier is a number makes both revisions throw: a number has no
  \<^verbatim>\<open>toLowerCase\<close>.
\<close>

theorem malformed_field_throws_counterexample:
  "parseTripShotCommutePlanForOrigin sample_env sample_clock V15 sample_doc_numeric_stop
     EC_S_STOP_ID ''EC S'' = Inl TypeError \<and>
   parseTripShotCommutePlanForOrigin sample_env sample_clock V14 sample_doc_numeric_stop
     EC_S_STOP_ID ''EC S'' = Inl TypeError"
  by code_simp


section \<open>From the entries of \<^verbatim>\<open>considerRide\<close> to the entries of a result\<close>


lemma from_rides_Cons:
  "from_rides env ver o_id rides key e \<Longrightarrow> from_rides env ver o_id (ride # rides) key e"
  by (auto simp: from_rides_def)

lemma bucket_push_cases:
  assumes "bucket_push key e st = Inr st'"
  shows "(key = ''green'' \<and> bk_green st' = bk_green st @ [e] \<and> bk_red st' = bk_red st \<and>
            bk_blue st' = bk_blue st) \<or>
         (key = ''red'' \<and> bk_green st' = bk_green st \<and> bk_red st' = bk_red st @ [e] \<and>
            bk_blue st' = bk_blue st) \<or>
         (key = ''blue'' \<and> bk_green st' = bk_green st \<and> bk_red st' = bk_red st \<and>
            bk_blue st' = bk_blue st @ [e])"
  using assms by (auto simp: bucket_push_def split: if_splits)

lemma ride_step_provenance:
  assumes "ride_step env clock ver o_id dir st ride = Inr st'"
  shows "(\<forall>e\<in>set (bk_green st'). e \<in> set (bk_green st) \<or> from_rides env ver o_id [ride] ''green'' e) \<and>
         (\<forall>e\<in>set (bk_red st'). e \<in> set (bk_red st) \<or> from_rides env ver o_id [ride] ''red'' e) \<and>
         (\<forall>e\<in>set (bk_blue st'). e \<in> set (bk_blue st) \<or> from_rides env ver o_id [ride] ''blue'' e)"
proof (cases "st' = st")
  case True
  then show ?thesis by simp
next
  case False
  with ride_step_Inr [OF assms] obtain routeInfo where
    "considerRide env clock ver o_id st ride routeInfo = Inr st'"
    by blast
  from considerRide_Inr [OF this] False obtain key e where
    entry: "considerRide_entry env (clock (reads st)) ver o_id ride routeInfo = Inr (Some (key, e))"
    and push: "bucket_push key e (st\<lparr>reads := Suc (reads st)\<rparr>) = Inr st'"
    by blast
  from entry have "from_rides env ver o_id [ride] key e"
    by (auto simp: from_rides_def)
  with bucket_push_cases [OF push] show ?thesis by auto
qed

lemma from_rides_mono:
  "from_rides env ver o_id rs key e \<Longrightarrow> set rs \<subseteq> set rs' \<Longrightarrow> from_rides env ver o_id rs' key e"
  by (auto simp: from_rides_def)

lemma rides_loop_provenance:
  "rides_loop env clock ver o_id dir st rides = Inr st' \<Longrightarrow>
     (\<forall>e\<in>set (bk_green st'). e \<in> set (bk_green st) \<or> from_rides env ver o_id rides ''green'' e) \<and>
     (\<forall>e\<in>set (bk_red st'). e \<in> set (bk_red st) \<or> from_rides env ver o_id rides ''red'' e) \<and>
     (\<forall>e\<in>set (bk_blue st'). e \<in> set (bk_blue st) \<or> from_rides env ver o_id rides ''blue'' e)"
proof (induction rides arbitrary: st)
  case Nil
  then show ?case by simp
next
  case (Cons ride rides)
  from Cons.prems obtain st1 where
    s: "ride_step env clock ver o_id dir st ride = Inr st1"
    and r: "rides_loop env clock ver o_id dir st1 rides = Inr st'"
    by (auto simp: bindE_Inr_iff)
  note a = ride_step_provenance [OF s] and b = Cons.IH [OF r]
  have m1: "from_rides env ver o_id (ride # rides) key e" if "from_rides env ver o_id [ride] key e"
    for key e using that by (rule from_rides_mono) simp
  have m2: "from_rides env ver o_id (ride # rides) key e" if "from_rides env ver o_id rides key e"
    for key e using that by (rule from_rides_mono) auto
  from a b m1 m2 show ?case by blast
qed

text \<open>
  Every entry of a result is one that \<^verbatim>\<open>considerRide\<close> has made of a ride of the document,
  for the bucket it is in: what is proved of the entries \<^verbatim>\<open>considerRide\<close> makes holds of
  the entries of the result.
\<close>

lemma result_entries_from_rides:
  assumes "parseTripShotCommutePlanForOrigin env clock ver json originStopId originLabel = Inr r"
  shows "\<exists>rides. iterate (js_or (fld json ''rides'') (Arr [])) = Inr rides \<and>
           (\<forall>e\<in>set (green r). from_rides env ver (toLowerCase originStopId) rides ''green'' e) \<and>
           (\<forall>e\<in>set (red r). from_rides env ver (toLowerCase originStopId) rides ''red'' e) \<and>
           (\<forall>e\<in>set (blue r). from_rides env ver (toLowerCase originStopId) rides ''blue'' e)"
proof -
  from assms obtain b where b: "collect_buckets env clock ver json originStopId = Inr b"
    and r: "r = \<lparr>stopName = originLabel,
                 green = take 3 (js_sort env (bk_green b)),
                 red = take 3 (js_sort env (bk_red b)),
                 blue = take 3 (js_sort env (bk_blue b))\<rparr>"
    by (auto simp: parseTripShotCommutePlanForOrigin_def bindE_Inr_iff)
  from b obtain dir rides where
    rides: "iterate (js_or (fld json ''rides'') (Arr [])) = Inr rides"
    and loop: "rides_loop env clock ver (toLowerCase originStopId) dir init_state rides = Inr b"
    by (auto simp: collect_buckets_def bindE_Inr_iff)
  from rides_loop_provenance [OF loop]
  have "\<forall>e\<in>set (bk_green b). from_rides env ver (toLowerCase originStopId) rides ''green'' e"
    "\<forall>e\<in>set (bk_red b). from_rides env ver (toLowerCase originStopId) rides ''red'' e"
    "\<forall>e\<in>set (bk_blue b). from_rides env ver (toLowerCase originStopId) rides ''blue'' e"
    by (simp_all add: init_state_def)
  note from_buckets = this
  have sub: "set (take 3 (js_sort env xs)) \<subseteq> set xs" for xs
    using set_take_subset [of 3 "js_sort env xs"] set_js_sort [of env xs] by (rule subset_trans)
  have g: "set (green r) \<subseteq> set (bk_green b)" using sub [of "bk_green b"] by (simp add: r)
  have d: "set (red r) \<subseteq> set (bk_red b)" using sub [of "bk_red b"] by (simp add: r)
  have u: "set (blue r) \<subseteq> set (bk_blue b)" using sub [of "bk_blue b"] by (simp add: r)
  from from_buckets(1) g
  have "\<forall>e\<in>set (green r). from_rides env ver (toLowerCase originStopId) rides ''green'' e"
    by blast
  moreover from from_buckets(2) d
  have "\<forall>e\<in>set (red r). from_rides env ver (toLowerCase originStopId) rides ''red'' e"
    by blast
  moreover from from_buckets(3) u
  have "\<forall>e\<in>set (blue r). from_rides env ver (toLowerCase originStopId) rides ''blue'' e"
    by blast
  ultimately show ?thesis using rides by blast
qed

text \<open>The filter, as the orchestrator applies it to a bucket of a result.\<close>

lemma filter_of_result:
  assumes "parseTripShotCommutePlanForOrigin env clock ver json originStopId originLabel = Inr r"
    and "getNYCTime env t = Some now"
  shows "filterTripsAfterNYCNow env t (green r)
           = Inr (filter (\<lambda>e. case entry_ms env e of None \<Rightarrow> False | Some i \<Rightarrow> now \<le> i) (green r))"
    and "filterTripsAfterNYCNow env t (red r)
           = Inr (filter (\<lambda>e. case entry_ms env e of None \<Rightarrow> False | Some i \<Rightarrow> now \<le> i) (red r))"
    and "filterTripsAfterNYCNow env t (blue r)
           = Inr (filter (\<lambda>e. case entry_ms env e of None \<Rightarrow> False | Some i \<Rightarrow> now \<le> i) (blue r))"
  using normalizer_entries_ok [OF assms(1)] assms(2)
  by (simp_all add: filterTripsAfterNYCNow_def filter_trips_eq)


end
